theory Spec2Isabelle
  imports Main
begin

section \<open>JavaScript values\<close>

text \<open>
  The pipeline of \<^verbatim>\<open>src/lib/libraries.ts\<close> handles dynamically typed data: parsed YAML
  documents, decoded JSON payloads and cache entries. They are modelled by one datatype.
  An object is an association list (the first binding of a key counts); a key bound to
  \<open>JUndefined\<close> is a property that exists and holds \<^verbatim>\<open>undefined\<close>, which JavaScript
  tells apart from a missing property. Numbers are the integers plus \<open>JNaN\<close>; fractions
  are outside the model.
\<close>

datatype jsval =
    JUndefined
  | JNull
  | JBool bool
  | JNum int
  | JNaN
  | JStr string
  | JArr "jsval list"
  | JObj "(string \<times> jsval) list"

text \<open>\<^verbatim>\<open>obj[key]\<close> on the properties of an object.\<close>

definition get_key :: "(string \<times> jsval) list \<Rightarrow> string \<Rightarrow> jsval" where
  "get_key kvs k = (case map_of kvs k of None \<Rightarrow> JUndefined | Some v \<Rightarrow> v)"

text \<open>\<^verbatim>\<open>obj[key] = v\<close>: an existing property keeps its place, a new one goes last.\<close>

fun set_key :: "(string \<times> jsval) list \<Rightarrow> string \<Rightarrow> jsval \<Rightarrow> (string \<times> jsval) list" where
  "set_key [] k v = [(k, v)]"
| "set_key ((k', v') # kvs) k v =
     (if k' = k then (k, v) # kvs else (k', v') # set_key kvs k v)"

text \<open>JavaScript truthiness, the test behind \<^verbatim>\<open>if (x)\<close> and \<^verbatim>\<open>!x\<close>.\<close>

fun truthy :: "jsval \<Rightarrow> bool" where
  "truthy JUndefined = False"
| "truthy JNull = False"
| "truthy (JBool b) = b"
| "truthy (JNum n) = (n \<noteq> 0)"
| "truthy JNaN = False"
| "truthy (JStr s) = (s \<noteq> [])"
| "truthy (JArr xs) = True"
| "truthy (JObj kvs) = True"

fun is_string :: "jsval \<Rightarrow> bool" where
  "is_string (JStr s) = True"
| "is_string v = False"

fun is_boolean :: "jsval \<Rightarrow> bool" where
  "is_boolean (JBool b) = True"
| "is_boolean v = False"

fun is_number :: "jsval \<Rightarrow> bool" where
  "is_number (JNum n) = True"
| "is_number v = False"

fun is_object :: "jsval \<Rightarrow> bool" where
  "is_object (JObj kvs) = True"
| "is_object v = False"

subsection \<open>Decimal numerals and \<^verbatim>\<open>String(value)\<close>\<close>

definition digit_char :: "nat \<Rightarrow> char" where
  "digit_char d = char_of (48 + d)"

fun nat_digits :: "nat \<Rightarrow> nat \<Rightarrow> string" where
  "nat_digits 0 n = []"
| "nat_digits (Suc fuel) n =
     (if n < 10 then [digit_char n] else nat_digits fuel (n div 10) @ [digit_char (n mod 10)])"

text \<open>A number has at most \<open>n + 1\<close> decimal digits, so that much fuel is enough.\<close>

definition show_nat :: "nat \<Rightarrow> string" where
  "show_nat n = nat_digits (Suc n) n"

definition show_int :: "int \<Rightarrow> string" where
  "show_int i = (if i < 0 then CHR ''-'' # show_nat (nat (- i)) else show_nat (nat i))"

fun join_with :: "string \<Rightarrow> string list \<Rightarrow> string" where
  "join_with sep [] = []"
| "join_with sep [x] = x"
| "join_with sep (x # y # ys) = x @ sep @ join_with sep (y # ys)"

text \<open>
  \<^verbatim>\<open>String(value)\<close>. An array prints its elements separated by commas, with
  \<^verbatim>\<open>null\<close> and \<^verbatim>\<open>undefined\<close> elements printed as nothing.
\<close>

fun js_String :: "jsval \<Rightarrow> string" where
  "js_String JUndefined = ''undefined''"
| "js_String JNull = ''null''"
| "js_String (JBool b) = (if b then ''true'' else ''false'')"
| "js_String (JNum n) = show_int n"
| "js_String JNaN = ''NaN''"
| "js_String (JStr s) = s"
| "js_String (JArr xs) =
     join_with '','' (map (\<lambda>x. if x = JUndefined \<or> x = JNull then [] else js_String x) xs)"
| "js_String (JObj kvs) = ''[object Object]''"

definition lower_char :: "char \<Rightarrow> char" where
  "lower_char c =
     (let n = (of_char c :: nat) in if 65 \<le> n \<and> n \<le> 90 then char_of (n + 32) else c)"


section \<open>The validation library\<close>

text \<open>
  \<^verbatim>\<open>libraries.ts\<close> builds its schemas with the third-party package \<^verbatim>\<open>yup\<close>
  (line 4; the \<^verbatim>\<open>Asserts\<close> type and schema-valued \<^verbatim>\<open>then\<close>/\<^verbatim>\<open>otherwise\<close>
  fix the 0.32 line). A schema of the source is a term of the datatype \<open>schema\<close>, written
  the way the source writes it; \<open>cast\<close>, \<open>validate\<close> and \<open>validateSync\<close> give such a
  term the meaning the library documents:
  \<^item> \<^verbatim>\<open>validateSync\<close> first casts the value, then tests the cast value, and returns
    the cast value;
  \<^item> an object schema keeps the properties its shape does not name (there is no
    \<^verbatim>\<open>noUnknown()\<close> and no \<^verbatim>\<open>strict()\<close> in the source);
  \<^item> an object schema casts \<^verbatim>\<open>undefined\<close> to a default object built from its
    fields;
  \<^item> \<^verbatim>\<open>when(key, {is, then, otherwise})\<close> applies \<^verbatim>\<open>is\<close> to the value of the
    sibling property \<^verbatim>\<open>key\<close> of the enclosing object, not to the value under
    validation;
  \<^item> every schema is optional and not nullable unless \<^verbatim>\<open>required()\<close> says otherwise.
\<close>

datatype string_test =
    Required
  | Url
  | Matches "string \<Rightarrow> bool"

text \<open>
  \<open>When key is then otherwise\<close> stands for
  \<^verbatim>\<open>yup.mixed().when(key, {is, then, otherwise})\<close>: the resolved schema is the chosen
  branch, since the \<^verbatim>\<open>mixed()\<close> it is concatenated to has no transform and no test.
\<close>

datatype schema =
    Mixed
  | String_schema "string_test list"
  | Boolean_schema
  | Number_schema
  | Object_schema "(string \<times> schema) list"
  | When string "jsval \<Rightarrow> bool" schema schema

text \<open>
  What the library computes and the model does not spell out is taken as a parameter:
  the regular expression behind \<^verbatim>\<open>string().url()\<close>, the \<^verbatim>\<open>JSON.parse\<close> that the
  object transform applies to a string (\<^verbatim>\<open>null\<close> when it throws), and the number
  transform on a value that is not a number (\<^verbatim>\<open>parseFloat\<close> and unary plus).
\<close>

record yup_lib =
  rUrl :: "string \<Rightarrow> bool"
  json_parse :: "string \<Rightarrow> jsval"
  number_transform :: "jsval \<Rightarrow> jsval"

datatype error =
    ValidationError
  | TypeError
  | FetchError string "nat option"
  | NotValid string error
  | RepoMoved string jsval
  | GitHubDataError string error
  | GitHubStatsError string error
  | NpmError string error
  | BundlephobiaStatus nat string
  | BundlephobiaFailed string error
  | IncompleteData nat nat
  | LoadError string

text \<open>
  The constructors of \<open>error\<close> are the values the code throws:
  \<^item> \<open>ValidationError\<close>: thrown by \<^verbatim>\<open>validateSync\<close>; its message is not modelled;
  \<^item> \<open>TypeError\<close>: a property read on \<^verbatim>\<open>undefined\<close> or \<^verbatim>\<open>null\<close>;
  \<^item> \<open>FetchError text status\<close>: a rejection of \<^verbatim>\<open>throttledFetch\<close>, with what it prints
    as and the \<^verbatim>\<open>response.status\<close> it carries, if any;
  \<^item> \<open>NotValid path e\<close>: line 109, \<^verbatim>\<open>${path} is not valid: ${err}\<close>;
  \<^item> \<open>RepoMoved repo full_name\<close>: line 125, \<^verbatim>\<open>GitHub repo ${item.githubRepo} has moved to ${data.full_name}\<close>;
  \<^item> \<open>GitHubDataError id e\<close>: line 132, \<^verbatim>\<open>Error getting GitHub data for ${id}: ${err}\<close>;
  \<^item> \<open>GitHubStatsError id e\<close>: line 158, \<^verbatim>\<open>Error getting GitHub stats for ${id}: ${err}\<close>;
  \<^item> \<open>NpmError name e\<close>: line 191, \<^verbatim>\<open>Error getting NPM data for ${name}: ${err}\<close>;
  \<^item> \<open>BundlephobiaStatus status name\<close>: line 219, \<^verbatim>\<open>Bundlephobia API returned ${err.response.status} for package ${name}\<close>;
  \<^item> \<open>BundlephobiaFailed name e\<close>: line 220, \<^verbatim>\<open>Bundlephobia failed for package ${name}: ${err}\<close>;
  \<^item> \<open>IncompleteData paths items\<close>: line 233;
  \<^item> \<open>LoadError text\<close>: what \<^verbatim>\<open>readFileSync\<close> or \<^verbatim>\<open>yaml.load\<close> throws at line 105.
\<close>

subsection \<open>Transforms\<close>

text \<open>
  \<^verbatim>\<open>string()\<close>: a string, an array, \<^verbatim>\<open>null\<close> and a plain object stay; anything else
  becomes its \<^verbatim>\<open>toString()\<close>.
\<close>

fun string_transform :: "jsval \<Rightarrow> jsval" where
  "string_transform (JBool b) = JStr (js_String (JBool b))"
| "string_transform (JNum n) = JStr (js_String (JNum n))"
| "string_transform JNaN = JStr (js_String JNaN)"
| "string_transform v = v"

text \<open>
  \<^verbatim>\<open>boolean()\<close>: a value that is not a boolean and prints as \<^verbatim>\<open>/^(true|1)$/i\<close> becomes
  \<^verbatim>\<open>true\<close>, one that prints as \<^verbatim>\<open>/^(false|0)$/i\<close> becomes \<^verbatim>\<open>false\<close>, any other
  stays.
\<close>

definition boolean_transform :: "jsval \<Rightarrow> jsval" where
  "boolean_transform v =
     (if is_boolean v then v
      else let s = map lower_char (js_String v) in
        if s = ''true'' \<or> s = ''1'' then JBool True
        else if s = ''false'' \<or> s = ''0'' then JBool False
        else v)"

text \<open>\<^verbatim>\<open>object()\<close>: a string is parsed as JSON; what is then no plain object becomes \<^verbatim>\<open>null\<close>.\<close>

definition object_transform :: "yup_lib \<Rightarrow> jsval \<Rightarrow> jsval" where
  "object_transform L v =
     (let v' = (case v of JStr s \<Rightarrow> json_parse L s | _ \<Rightarrow> v)
      in if is_object v' then v' else JNull)"

text \<open>
  \<^verbatim>\<open>a !== b\<close> as the object cast uses it to see whether a property changed. On objects
  the library compares references, and a cast returns a new object exactly when it
  changed something below.
\<close>

definition strict_neq :: "jsval \<Rightarrow> jsval \<Rightarrow> bool" where
  "strict_neq a b = (a \<noteq> b \<or> a = JNaN)"

subsection \<open>Defaults, casting and testing\<close>

text \<open>\<^verbatim>\<open>schema.deps\<close>: the sibling keys a schema's conditions read.\<close>

fun deps :: "schema \<Rightarrow> string list" where
  "deps (When key is_fn then_s otherwise_s) = [key]"
| "deps s = []"

text \<open>
  \<^verbatim>\<open>_nodes\<close> of an object schema: its field names and the keys its fields depend on.
  The library sorts them topologically and reverses the result, which puts the keys
  that are only depended on first and then the fields, the last declared first. The
  order shows in the order of the properties of a cast object.
\<close>

definition nodes :: "(string \<times> schema) list \<Rightarrow> string list" where
  "nodes flds =
     remdups (filter (\<lambda>k. k \<notin> set (map fst flds)) (concat (map (\<lambda>(k, s). deps s) flds)))
     @ rev (map fst flds)"

text \<open>
  \<^verbatim>\<open>getDefault()\<close>. No schema of the source sets a default, so a scalar schema has
  \<^verbatim>\<open>undefined\<close>, and an object schema invents an object with the default of each node,
  in the order of the nodes: \<open>getDefaults\<close> puts the fields declared later first.
  A condition is resolved with no parent, so \<^verbatim>\<open>is\<close> sees \<^verbatim>\<open>undefined\<close>. A node that is
  only a dependency has no field to ask, and the library fails on it with a
  \<^verbatim>\<open>TypeError\<close>.
\<close>

fun getDefault :: "schema \<Rightarrow> error + jsval"
  and getDefaults :: "(string \<times> schema) list \<Rightarrow> error + (string \<times> jsval) list" where
  "getDefault Mixed = Inr JUndefined"
| "getDefault (String_schema ts) = Inr JUndefined"
| "getDefault Boolean_schema = Inr JUndefined"
| "getDefault Number_schema = Inr JUndefined"
| "getDefault (When key is_fn then_s otherwise_s) =
     (if is_fn JUndefined then getDefault then_s else getDefault otherwise_s)"
| "getDefault (Object_schema flds) =
     (if nodes flds = [] then Inr JUndefined
      else if nodes flds \<noteq> rev (map fst flds) then Inl TypeError
      else (case getDefaults flds of Inl e \<Rightarrow> Inl e | Inr kvs \<Rightarrow> Inr (JObj kvs)))"
| "getDefaults [] = Inr []"
| "getDefaults ((k, s) # flds) =
     (case getDefaults flds of
        Inl e \<Rightarrow> Inl e
      | Inr kvs \<Rightarrow> (case getDefault s of Inl e \<Rightarrow> Inl e | Inr v \<Rightarrow> Inr (kvs @ [(k, v)])))"


text \<open>
  The value a condition reads: the property \<^verbatim>\<open>key\<close> of the parent, \<^verbatim>\<open>undefined\<close>
  when there is no parent object.
\<close>

fun sibling :: "jsval \<Rightarrow> string \<Rightarrow> jsval" where
  "sibling (JObj kvs) k = get_key kvs k"
| "sibling v k = JUndefined"

text \<open>
  \<^verbatim>\<open>_cast\<close>. \<^verbatim>\<open>undefined\<close> skips the transforms and takes the default. The object
  cast walks the nodes and then the other keys of the value, building a new object
  \<open>built\<close>: a field's value is cast with \<open>built\<close> as its parent and kept unless it is
  \<^verbatim>\<open>undefined\<close>; a key without a field is copied. \<open>cast_fields\<close> takes the fields in
  the order of the nodes, the last declared first: the fields after a field are cast
  before it. The new object is returned only if one of its properties differs from the
  original's.
\<close>

fun cast :: "yup_lib \<Rightarrow> schema \<Rightarrow> jsval \<Rightarrow> jsval \<Rightarrow> error + jsval"
  and cast_fields :: "yup_lib \<Rightarrow> (string \<times> schema) list \<Rightarrow> (string \<times> jsval) list
        \<Rightarrow> (string \<times> jsval) list \<Rightarrow> error + (string \<times> jsval) list" where
  "cast L Mixed parent v = Inr v"
| "cast L (String_schema ts) parent v =
     Inr (if v = JUndefined then JUndefined else string_transform v)"
| "cast L Boolean_schema parent v =
     Inr (if v = JUndefined then JUndefined else boolean_transform v)"
| "cast L Number_schema parent v =
     Inr (if v = JUndefined then JUndefined
          else if is_number v then v else number_transform L v)"
| "cast L (When key is_fn then_s otherwise_s) parent v =
     (if is_fn (sibling parent key) then cast L then_s parent v
      else cast L otherwise_s parent v)"
| "cast L (Object_schema flds) parent v =
     (if v = JUndefined then getDefault (Object_schema flds)
      else (case object_transform L v of
          JObj kvs \<Rightarrow>
            (let dangling = filter (\<lambda>k. k \<notin> set (map fst flds)) (nodes flds);
                 others = remdups (filter (\<lambda>k. k \<notin> set (nodes flds)) (map fst kvs));
                 built0 = map (\<lambda>k. (k, get_key kvs k))
                            (filter (\<lambda>k. k \<in> set (map fst kvs)) dangling)
             in (case cast_fields L flds kvs built0 of
                   Inl e \<Rightarrow> Inl e
                 | Inr built1 \<Rightarrow>
                     (let built = built1 @ map (\<lambda>k. (k, get_key kvs k)) others
                      in Inr (if list_ex (\<lambda>k. strict_neq (get_key built k) (get_key kvs k))
                                   (nodes flds @ others)
                              then JObj built else JObj kvs))))
        | v' \<Rightarrow> Inr v'))"
| "cast_fields L [] kvs built = Inr built"
| "cast_fields L ((k, s) # flds) kvs built =
     (case cast_fields L flds kvs built of
        Inl e \<Rightarrow> Inl e
      | Inr b \<Rightarrow>
          (case cast L s (JObj b) (get_key kvs k) of
             Inl e \<Rightarrow> Inl e
           | Inr v \<Rightarrow> Inr (if v \<noteq> JUndefined then b @ [(k, v)] else b)))"

text \<open>
  The tests of a string schema, on a value that passed the type test:
  \<^verbatim>\<open>required()\<close> wants a non-empty string; \<^verbatim>\<open>url()\<close> lets the empty string pass;
  \<^verbatim>\<open>matches(re)\<close> does not.
\<close>

fun string_test_ok :: "yup_lib \<Rightarrow> string_test \<Rightarrow> jsval \<Rightarrow> bool" where
  "string_test_ok L Required v = (case v of JStr s \<Rightarrow> s \<noteq> [] | _ \<Rightarrow> False)"
| "string_test_ok L Url v = (case v of JStr s \<Rightarrow> s = [] \<or> rUrl L s | _ \<Rightarrow> True)"
| "string_test_ok L (Matches re) v = (case v of JStr s \<Rightarrow> re s | _ \<Rightarrow> True)"

text \<open>
  \<^verbatim>\<open>_validate\<close> in strict mode, on a value already cast: the type test (which
  \<^verbatim>\<open>undefined\<close> passes and \<^verbatim>\<open>null\<close> fails), then the schema's tests, then for an
  object each field on its property, with the object as the parent.
\<close>

fun validate :: "yup_lib \<Rightarrow> schema \<Rightarrow> jsval \<Rightarrow> jsval \<Rightarrow> bool"
  and validate_fields :: "yup_lib \<Rightarrow> (string \<times> schema) list \<Rightarrow> jsval \<Rightarrow> bool" where
  "validate L Mixed parent v = True"
| "validate L (String_schema ts) parent v =
     ((v = JUndefined \<or> is_string v) \<and> list_all (\<lambda>t. string_test_ok L t v) ts)"
| "validate L Boolean_schema parent v = (v = JUndefined \<or> is_boolean v)"
| "validate L Number_schema parent v = (v = JUndefined \<or> is_number v)"
| "validate L (When key is_fn then_s otherwise_s) parent v =
     (if is_fn (sibling parent key) then validate L then_s parent v
      else validate L otherwise_s parent v)"
| "validate L (Object_schema flds) parent v =
     (case v of
        JUndefined \<Rightarrow> True
      | JObj kvs \<Rightarrow> validate_fields L flds (JObj kvs)
      | _ \<Rightarrow> False)"
| "validate_fields L [] obj = True"
| "validate_fields L ((k, s) # flds) obj =
     (validate L s obj (sibling obj k) \<and> validate_fields L flds obj)"

text \<open>\<^verbatim>\<open>schema.validateSync(value)\<close>: the cast value, or the error thrown.\<close>

definition validateSync :: "yup_lib \<Rightarrow> schema \<Rightarrow> jsval \<Rightarrow> error + jsval" where
  "validateSync L s v =
     (case cast L s JUndefined v of
        Inl e \<Rightarrow> Inl e
      | Inr v' \<Rightarrow> if validate L s JUndefined v' then Inr v' else Inl ValidationError)"

text \<open>
  \<^verbatim>\<open>a.concat(b)\<close> on object schemas: the fields of \<open>b\<close>, then those of \<open>a\<close> that
  \<open>b\<close> does not name.
\<close>

fun concat_schema :: "schema \<Rightarrow> schema \<Rightarrow> schema" where
  "concat_schema (Object_schema fa) (Object_schema fb) =
     Object_schema (fb @ filter (\<lambda>(k, s). k \<notin> set (map fst fb)) fa)"
| "concat_schema a b = b"


section \<open>The schemas of \<^verbatim>\<open>libraries.ts\<close>\<close>

text \<open>Lines 14 to 24. Both conditions name a key of their own and test it for a string.\<close>

definition booleanOrUrl :: schema where
  "booleanOrUrl = When ''booleanOrUrl'' is_string (String_schema [Url]) Boolean_schema"

definition booleanOrString :: schema where
  "booleanOrString = When ''booleanOrString'' is_string (String_schema []) Boolean_schema"

text \<open>
  Line 28, \<^verbatim>\<open>/^\S+\/\S+$/\<close>: no whitespace anywhere, and a slash that is neither the first
  nor the last character. A character of a string is a code unit below 256 here, and
  the white space of \<^verbatim>\<open>\s\<close> among those is the ASCII one and the no-break space 160;
  the white space beyond 255 is outside the model.
\<close>

definition js_space :: "char \<Rightarrow> bool" where
  "js_space c = (c \<in> set [char_of (9::nat), char_of (10::nat), char_of (11::nat),
                            char_of (12::nat), char_of (13::nat), CHR '' '', char_of (160::nat)])"

definition repo_re :: "string \<Rightarrow> bool" where
  "repo_re s = (list_all (\<lambda>c. \<not> js_space c) s \<and> CHR ''/'' \<in> set (butlast (tl s)))"

definition githubRepoSchema :: schema where
  "githubRepoSchema = String_schema [Matches repo_re]"

text \<open>Lines 30 to 37.\<close>

definition frameworksSchema :: schema where
  "frameworksSchema = Object_schema
     [(''vanilla'', booleanOrUrl),
      (''react'', booleanOrUrl),
      (''vue'', booleanOrUrl),
      (''angular'', booleanOrUrl),
      (''jquery'', booleanOrUrl),
      (''ember'', booleanOrUrl)]"

text \<open>
  Lines 42 to 58. \<^verbatim>\<open>Features\<close> is imported from \<^verbatim>\<open>./features\<close>, which is not part
  of the sources at hand: its keys are the parameter \<open>Features\<close>.
\<close>

definition yamlSchema :: "string list \<Rightarrow> schema" where
  "yamlSchema Features = Object_schema
     [(''title'', String_schema [Required]),
      (''description'', String_schema [Required]),
      (''homeUrl'', String_schema [Url]),
      (''demoUrl'', String_schema [Url]),
      (''githubRepo'', githubRepoSchema),
      (''npmPackage'', String_schema []),
      (''ignoreBundlephobia'', Boolean_schema),
      (''license'', String_schema []),
      (''revenueModel'', String_schema []),
      (''frameworks'', frameworksSchema),
      (''features'', Object_schema (map (\<lambda>key. (key, booleanOrString)) Features))]"

text \<open>Lines 61 to 84.\<close>

definition libraryInfoSchema :: "string list \<Rightarrow> schema" where
  "libraryInfoSchema Features = concat_schema (yamlSchema Features)
     (Object_schema
        [(''id'', String_schema [Required]),
         (''github'', Object_schema
            [(''url'', String_schema [Url]),
             (''stars'', Number_schema),
             (''forks'', Number_schema),
             (''openIssues'', Number_schema),
             (''watchers'', Number_schema),
             (''subscribers'', Number_schema),
             (''network'', Number_schema),
             (''contributors'', Number_schema)]),
         (''npm'', Object_schema
            [(''url'', String_schema [Url]),
             (''downloads'', Number_schema)]),
         (''bundlephobia'', Object_schema
            [(''url'', String_schema [Url]),
             (''rawSize'', Number_schema),
             (''gzipSize'', Number_schema)])])"

text \<open>Line 89: built from the same keys, and read nowhere in the file.\<close>

definition allowedFeatures :: "string list \<Rightarrow> string set" where
  "allowedFeatures Features = set Features"


section \<open>Reading the pagination header\<close>

text \<open>\<^verbatim>\<open>s.split(",")\<close>: the pieces between commas; the empty string gives one empty piece.\<close>

fun split_comma :: "string \<Rightarrow> string list" where
  "split_comma [] = [[]]"
| "split_comma (c # cs) =
     (if c = CHR '','' then [] # split_comma cs
      else (case split_comma cs of [] \<Rightarrow> [[c]] | p # ps \<Rightarrow> (c # p) # ps))"

text \<open>\<^verbatim>\<open>/rel="last"/.test(s)\<close>: the text occurs somewhere in \<open>s\<close>.\<close>

fun contains :: "string \<Rightarrow> string \<Rightarrow> bool" where
  "contains pat [] = (pat = [])"
| "contains pat (c # cs) = (take (length pat) (c # cs) = pat \<or> contains pat cs)"

definition rel_last :: string where
  "rel_last = [CHR ''r'', CHR ''e'', CHR ''l'', CHR ''='', char_of (34::nat),
               CHR ''l'', CHR ''a'', CHR ''s'', CHR ''t'', char_of (34::nat)]"

definition is_digit :: "char \<Rightarrow> bool" where
  "is_digit c = (48 \<le> (of_char c :: nat) \<and> (of_char c :: nat) \<le> 57)"

text \<open>\<^verbatim>\<open>\w\<close>: an ASCII letter, a digit or the underscore.\<close>

definition is_word_char :: "char \<Rightarrow> bool" where
  "is_word_char c =
     (let n = (of_char c :: nat)
      in (48 \<le> n \<and> n \<le> 57) \<or> (65 \<le> n \<and> n \<le> 90) \<or> n = 95 \<or> (97 \<le> n \<and> n \<le> 122))"

text \<open>
  \<^verbatim>\<open>part.match(/\bpage=(\d+)/)\<close>: the leftmost place where \<^verbatim>\<open>page=\<close> starts a word
  and at least one digit follows; the group is the longest run of digits there.
  \<open>prev_word\<close> tells whether the character before the current position is a word
  character. The result is the group, \<open>None\<close> when nothing matches.
\<close>

fun match_page :: "bool \<Rightarrow> string \<Rightarrow> string option" where
  "match_page prev_word [] = None"
| "match_page prev_word (c # cs) =
     (if \<not> prev_word \<and> take 5 (c # cs) = ''page='' \<and> takeWhile is_digit (drop 5 (c # cs)) \<noteq> []
      then Some (takeWhile is_digit (drop 5 (c # cs)))
      else match_page (is_word_char c) cs)"

text \<open>
  \<^verbatim>\<open>Number(digits)\<close> on a run of decimal digits, as an exact integer: a JavaScript
  number is one below \<open>2 ^ 53\<close>, and rounds above.
\<close>

definition digits_value :: "string \<Rightarrow> int" where
  "digits_value ds = foldl (\<lambda>acc c. 10 * acc + (int (of_char c) - 48)) 0 ds"

text \<open>
  Lines 147 to 150: the header is split at commas, the first piece that mentions
  \<^verbatim>\<open>rel="last"\<close> is searched for the page number (the empty string when no piece
  does), and \<^verbatim>\<open>Number(match && match[1])\<close> is 0 when there is no match, since
  \<^verbatim>\<open>Number(null)\<close> is 0.
\<close>

definition last_page :: "string \<Rightarrow> int" where
  "last_page link =
     (let header = split_comma link;
          part = (case find (contains rel_last) header of None \<Rightarrow> [] | Some p \<Rightarrow> p)
      in (case match_page False part of None \<Rightarrow> 0 | Some ds \<Rightarrow> digits_value ds))"


section \<open>The enrichment of one record\<close>

text \<open>
  Modelled from the spec: the result of \<^verbatim>\<open>throttledFetch\<close>, which is imported from
  \<^verbatim>\<open>./utils\<close> and specified as \<^verbatim>\<open>fetch(url) -> { data, headers }\<close>, the headers
  giving at least the link header. A response has the properties the code reads off it
  by name (\<^verbatim>\<open>res.data\<close> at lines 122, 143 and 152, and \<^verbatim>\<open>res.downloads\<close>,
  \<^verbatim>\<open>res.size\<close>, \<^verbatim>\<open>res.gzip\<close> through \<^verbatim>\<open>const data: any = res\<close> at lines 184 and
  207) and the value of \<^verbatim>\<open>res.headers.get("link")\<close>, \<open>None\<close> for \<^verbatim>\<open>null\<close>. What the
  fetcher answers to a request is a parameter of every run.
\<close>

record response =
  res_props :: "(string \<times> jsval) list"
  res_link :: "string option"

text \<open>
  The body of the callback of line 101 is an \<^verbatim>\<open>async\<close> function. It is modelled as a
  tree of the effects it performs, in the order it performs them: each node is one
  effect and holds what the function does with the answer.
  \<^item> \<open>Await url k\<close>: \<^verbatim>\<open>await throttledFetch(url)\<close>; the function is suspended, and
    \<open>k\<close> continues with the response or with the rejection;
  \<^item> \<open>CacheGet key k\<close>: \<^verbatim>\<open>cache.get(key)\<close>, \<^verbatim>\<open>undefined\<close> when there is no entry;
  \<^item> \<open>CacheSet key v p\<close>: \<^verbatim>\<open>cache.set(key, v)\<close>;
  \<^item> \<open>Push v p\<close>: \<^verbatim>\<open>items.push(v)\<close>;
  \<^item> \<open>Throw e\<close>: the function throws, so its promise rejects with \<open>e\<close>;
  \<^item> \<open>Done\<close>: the function returns, so its promise is fulfilled.
\<close>

datatype prog =
    Done
  | Throw error
  | Await string "error + response \<Rightarrow> prog"
  | CacheGet string "jsval \<Rightarrow> prog"
  | CacheSet string jsval prog
  | Push jsval prog

text \<open>
  \<^verbatim>\<open>v.name\<close>: a \<^verbatim>\<open>TypeError\<close> on \<^verbatim>\<open>undefined\<close> and \<^verbatim>\<open>null\<close>. The names read in
  this file are never array indices, so an array and a string only have \<^verbatim>\<open>length\<close>.
\<close>

fun get_prop :: "jsval \<Rightarrow> string \<Rightarrow> error + jsval" where
  "get_prop JUndefined name = Inl TypeError"
| "get_prop JNull name = Inl TypeError"
| "get_prop (JObj kvs) name = Inr (get_key kvs name)"
| "get_prop (JArr xs) name = Inr (if name = ''length'' then JNum (int (length xs)) else JUndefined)"
| "get_prop (JStr s) name = Inr (if name = ''length'' then JNum (int (length s)) else JUndefined)"
| "get_prop v name = Inr JUndefined"

text \<open>\<^verbatim>\<open>item.name = v\<close> on the record under construction, which is an object.\<close>

fun set_prop :: "jsval \<Rightarrow> string \<Rightarrow> jsval \<Rightarrow> jsval" where
  "set_prop (JObj kvs) name v = JObj (set_key kvs name v)"
| "set_prop item name v = item"

text \<open>
  \<^verbatim>\<open>Number(v)\<close> for the comparison of line 144. The conversion of a string is the
  parameter \<open>str_num\<close>; an array and an object convert through their string.
\<close>

fun to_number :: "(string \<Rightarrow> jsval) \<Rightarrow> jsval \<Rightarrow> jsval" where
  "to_number str_num JUndefined = JNaN"
| "to_number str_num JNull = JNum 0"
| "to_number str_num (JBool b) = JNum (if b then 1 else 0)"
| "to_number str_num (JNum n) = JNum n"
| "to_number str_num JNaN = JNaN"
| "to_number str_num (JStr s) = str_num s"
| "to_number str_num v = str_num (js_String v)"

text \<open>\<^verbatim>\<open>v < n\<close> for a number \<open>n\<close>: false when \<open>v\<close> converts to \<^verbatim>\<open>NaN\<close>.\<close>

definition js_less :: "(string \<Rightarrow> jsval) \<Rightarrow> jsval \<Rightarrow> int \<Rightarrow> bool" where
  "js_less str_num v n = (case to_number str_num v of JNum m \<Rightarrow> m < n | _ \<Rightarrow> False)"

text \<open>
  \<^verbatim>\<open>n + v\<close> for a number \<open>n\<close>: a string, an array or an object on the right makes it
  a concatenation of strings.
\<close>

fun js_plus :: "int \<Rightarrow> jsval \<Rightarrow> jsval" where
  "js_plus n JUndefined = JNaN"
| "js_plus n JNull = JNum n"
| "js_plus n (JBool b) = JNum (n + (if b then 1 else 0))"
| "js_plus n (JNum m) = JNum (n + m)"
| "js_plus n JNaN = JNaN"
| "js_plus n v = JStr (show_int n @ js_String v)"

text \<open>\<^verbatim>\<open>err.response\<close> and its \<^verbatim>\<open>status\<close>, which only a rejection of the fetcher can carry.\<close>

fun response_status :: "error \<Rightarrow> nat option" where
  "response_status (FetchError text status) = status"
| "response_status e = None"

definition pageSize :: int where
  "pageSize = 100"

text \<open>
  The cache keys and the URLs, as the template literals of lines 115, 120, 136, 141,
  151, 177, 182, 186, 200, 205 and 209 build them.
\<close>

definition info_key :: "jsval \<Rightarrow> string" where
  "info_key repo = ''gh-'' @ js_String repo @ ''-info''"

definition contributors_key :: "jsval \<Rightarrow> string" where
  "contributors_key repo = ''gh-'' @ js_String repo @ ''-contributors''"

definition repo_url :: "jsval \<Rightarrow> string" where
  "repo_url repo = ''https://api.github.com/repos/'' @ js_String repo"

definition contributors_url :: "jsval \<Rightarrow> string" where
  "contributors_url repo =
     ''https://api.github.com/repos/'' @ js_String repo @ ''/contributors?per_page='' @ show_int pageSize"

definition page_url :: "string \<Rightarrow> int \<Rightarrow> string" where
  "page_url url lastPage = url @ ''&page='' @ show_int lastPage"

definition npm_key :: "string \<Rightarrow> string" where
  "npm_key name = ''npm-'' @ name"

definition npm_url :: "string \<Rightarrow> string" where
  "npm_url name = ''https://api.npmjs.org/downloads/point/last-week/'' @ name"

definition npm_page :: "string \<Rightarrow> string" where
  "npm_page name = ''https://www.npmjs.com/package/'' @ name"

definition bundlephobia_key :: "string \<Rightarrow> string" where
  "bundlephobia_key name = ''bundlephobia-'' @ name"

definition bundlephobia_url :: "string \<Rightarrow> string" where
  "bundlephobia_url name = ''https://bundlephobia.com/api/size?package='' @ name"

definition bundlephobia_page :: "string \<Rightarrow> string" where
  "bundlephobia_page name = ''https://bundlephobia.com/result?p='' @ name"

text \<open>
  Lines 114 to 172. \<open>k\<close> is the rest of the function, from line 174 on, applied to the
  record. \<open>js_id\<close> is \<^verbatim>\<open>id\<close>.
\<close>

definition github_stats :: "(string \<Rightarrow> jsval) \<Rightarrow> string \<Rightarrow> jsval \<Rightarrow> (jsval \<Rightarrow> prog) \<Rightarrow> prog" where
  "github_stats str_num js_id repo k =
     (let key2 = contributors_key repo in
      CacheGet key2 (\<lambda>stats.
        if \<not> truthy stats then
          (let url = contributors_url repo in
           Await url (\<lambda>r1. case r1 of
               Inl err \<Rightarrow> Throw (GitHubStatsError js_id err)
             | Inr res1 \<Rightarrow>
                 (case get_prop (get_key (res_props res1) ''data'') ''length'' of
                    Inl err \<Rightarrow> Throw (GitHubStatsError js_id err)
                  | Inr len1 \<Rightarrow>
                      if js_less str_num len1 pageSize
                         \<or> (case res_link res1 of None \<Rightarrow> True | Some link \<Rightarrow> link = [])
                      then (let stats = JObj [(''contributors'', len1)]
                            in CacheSet key2 stats (k stats))
                      else
                        (let lastPage = last_page (case res_link res1 of None \<Rightarrow> [] | Some link \<Rightarrow> link)
                         in Await (page_url url lastPage) (\<lambda>r2. case r2 of
                              Inl err \<Rightarrow> Throw (GitHubStatsError js_id err)
                            | Inr res2 \<Rightarrow>
                                (case get_prop (get_key (res_props res2) ''data'') ''length'' of
                                   Inl err \<Rightarrow> Throw (GitHubStatsError js_id err)
                                 | Inr len2 \<Rightarrow>
                                     (let total = js_plus (pageSize * (lastPage - 1)) len2;
                                          stats = JObj [(''contributors'', total)]
                                      in CacheSet key2 stats (k stats))))))))
        else k stats))"

text \<open>
  Lines 162 to 171. The properties of \<open>data\<close> are read in the order of the object
  literal; a read on \<^verbatim>\<open>undefined\<close> or \<^verbatim>\<open>null\<close> throws.
\<close>

fun get_props :: "jsval \<Rightarrow> string list \<Rightarrow> error + jsval list" where
  "get_props v [] = Inr []"
| "get_props v (name # names) =
     (case get_prop v name of
        Inl e \<Rightarrow> Inl e
      | Inr x \<Rightarrow> (case get_props v names of Inl e \<Rightarrow> Inl e | Inr xs \<Rightarrow> Inr (x # xs)))"

definition github_block :: "jsval \<Rightarrow> jsval \<Rightarrow> error + jsval" where
  "github_block data stats =
     (case get_props data [''html_url'', ''stargazers_count'', ''forks_count'',
                           ''open_issues_count'', ''watchers_count'', ''subscribers_count'',
                           ''network_count''] of
        Inl e \<Rightarrow> Inl e
      | Inr vs \<Rightarrow>
          (case get_prop stats ''contributors'' of
             Inl e \<Rightarrow> Inl e
           | Inr contributors \<Rightarrow>
               Inr (JObj (zip [''url'', ''stars'', ''forks'', ''openIssues'', ''watchers'',
                               ''subscribers'', ''network''] vs
                          @ [(''contributors'', contributors)]))))"

definition github :: "(string \<Rightarrow> jsval) \<Rightarrow> string \<Rightarrow> jsval \<Rightarrow> (jsval \<Rightarrow> prog) \<Rightarrow> prog" where
  "github str_num js_id item k =
     (let repo = sibling item ''githubRepo'' in
      if truthy repo then
        (let key1 = info_key repo;
             rest = (\<lambda>data. github_stats str_num js_id repo (\<lambda>stats.
                       case github_block data stats of
                         Inl e \<Rightarrow> Throw e
                       | Inr block \<Rightarrow> k (set_prop item ''github'' block)))
         in CacheGet key1 (\<lambda>data.
              if \<not> truthy data then
                Await (repo_url repo) (\<lambda>r. case r of
                    Inl err \<Rightarrow> Throw (GitHubDataError js_id err)
                  | Inr res \<Rightarrow>
                      (let data = get_key (res_props res) ''data'' in
                       case get_prop data ''full_name'' of
                         Inl err \<Rightarrow> Throw (GitHubDataError js_id err)
                       | Inr full_name \<Rightarrow>
                           if strict_neq full_name repo
                           then Throw (GitHubDataError js_id (RepoMoved (js_String repo) full_name))
                           else CacheSet key1 data (rest data)))
              else rest data))
      else k item)"

text \<open>Lines 175 to 195.\<close>

definition npm :: "jsval \<Rightarrow> (jsval \<Rightarrow> prog) \<Rightarrow> prog" where
  "npm item k =
     (if truthy (sibling item ''npmPackage'') then
        (let name = js_String (sibling item ''npmPackage'');
             key = npm_key name
         in CacheGet key (\<lambda>cached.
              if \<not> truthy cached then
                Await (npm_url name) (\<lambda>r. case r of
                    Inl err \<Rightarrow> Throw (NpmError name err)
                  | Inr res \<Rightarrow>
                      (let block = JObj [(''url'', JStr (npm_page name)),
                                         (''downloads'', get_key (res_props res) ''downloads'')]
                       in CacheSet key block (k (set_prop item ''npm'' block))))
              else k (set_prop item ''npm'' cached)))
      else k item)"

text \<open>Lines 198 to 225.\<close>

definition bundlephobia :: "jsval \<Rightarrow> (jsval \<Rightarrow> prog) \<Rightarrow> prog" where
  "bundlephobia item k =
     (if truthy (sibling item ''npmPackage'')
         \<and> strict_neq (sibling item ''ignoreBundlephobia'') (JBool True) then
        (let name = js_String (sibling item ''npmPackage'');
             key = bundlephobia_key name
         in CacheGet key (\<lambda>cached.
              if \<not> truthy cached then
                Await (bundlephobia_url name) (\<lambda>r. case r of
                    Inl err \<Rightarrow>
                      Throw (case response_status err of
                               Some status \<Rightarrow> BundlephobiaStatus status name
                             | None \<Rightarrow> BundlephobiaFailed name err)
                  | Inr res \<Rightarrow>
                      (let block = JObj [(''url'', JStr (bundlephobia_page name)),
                                         (''rawSize'', get_key (res_props res) ''size''),
                                         (''gzipSize'', get_key (res_props res) ''gzip'')]
                       in CacheSet key block (k (set_prop item ''bundlephobia'' block))))
              else k (set_prop item ''bundlephobia'' cached)))
      else k item)"


section \<open>One source file\<close>

text \<open>
  What the run is given: the yup parameters, the string-to-number conversion of the
  language, the keys of \<^verbatim>\<open>Features\<close>, and the directory \<^verbatim>\<open>join(process.cwd(), "data")\<close>.
\<close>

record config =
  yup :: yup_lib
  str_num :: "string \<Rightarrow> jsval"
  Features :: "string list"
  dataDir :: string

text \<open>
  Line 102, \<^verbatim>\<open>basename(path, ".yml")\<close>, on a path whose last component is \<open>name\<close> and
  ends in \<^verbatim>\<open>.yml\<close>: the suffix is removed, except from the name \<^verbatim>\<open>.yml\<close> itself.
\<close>

definition basename_yml :: "string \<Rightarrow> string" where
  "basename_yml name = (if name = ''.yml'' then name else take (length name - 4) name)"

text \<open>
  Line 111, \<^verbatim>\<open>{ id, ...obj }\<close>: \<^verbatim>\<open>id\<close> comes first and the own properties of
  \<open>obj\<close> are assigned after it. A string spreads into its characters and an array into
  its elements, under their indices.
\<close>

fun own_props :: "jsval \<Rightarrow> (string \<times> jsval) list" where
  "own_props (JObj kvs) = kvs"
| "own_props (JStr s) = zip (map show_nat [0..<length s]) (map (\<lambda>c. JStr [c]) s)"
| "own_props (JArr xs) = zip (map show_nat [0..<length xs]) xs"
| "own_props v = []"

definition with_id :: "string \<Rightarrow> jsval \<Rightarrow> jsval" where
  "with_id js_id obj = JObj (foldl (\<lambda>kvs (k, v). set_key kvs k v) [(''id'', JStr js_id)] (own_props obj))"

text \<open>
  Lines 101 to 228, the callback for one path. \<open>loaded\<close> is what
  \<^verbatim>\<open>yaml.load(readFileSync(path, "utf8"))\<close> gives for the file: the parsed document or
  the text of the error thrown.
\<close>

definition task :: "config \<Rightarrow> string \<Rightarrow> string + jsval \<Rightarrow> prog" where
  "task cfg name loaded =
     (let path = dataDir cfg @ ''/'' @ name;
          js_id = basename_yml name
      in (case loaded of
            Inl text \<Rightarrow> Throw (LoadError text)
          | Inr obj \<Rightarrow>
              (case validateSync (yup cfg) (yamlSchema (Features cfg)) obj of
                 Inl err \<Rightarrow> Throw (NotValid path err)
               | Inr checked \<Rightarrow>
                   (case validateSync (yup cfg) (libraryInfoSchema (Features cfg)) (with_id js_id obj) of
                      Inl e \<Rightarrow> Throw e
                    | Inr item0 \<Rightarrow>
                        github (str_num cfg) js_id item0 (\<lambda>item1.
                        npm item1 (\<lambda>item2.
                        bundlephobia item2 (\<lambda>item3.
                          (case validateSync (yup cfg) (libraryInfoSchema (Features cfg)) item3 of
                             Inl e \<Rightarrow> Throw e
                           | Inr record \<Rightarrow> Push record Done))))))))"

section \<open>Running the callbacks\<close>

text \<open>
  The state the callbacks share: the cache, the array \<^verbatim>\<open>items\<close>, and a log of the
  effects performed so far, oldest first.
\<close>

datatype event =
    Fetch string
  | Get string
  | Set string jsval
  | Pushed jsval

record state =
  cache :: "string \<Rightarrow> jsval option"
  items :: "jsval list"
  trace :: "event list"

text \<open>
  Modelled from the spec: the cache of \<^verbatim>\<open>./cache\<close>, a store from keys to payloads
  with \<^verbatim>\<open>get(key) -> payload | absent\<close> and \<^verbatim>\<open>set(key, payload)\<close>. \<open>cache_get\<close> is
  \<^verbatim>\<open>cache.get(key)\<close>, \<^verbatim>\<open>undefined\<close> when the key is absent; \<^verbatim>\<open>cache.set\<close> is the
  update of the store in \<open>run_sync\<close> below.
\<close>

definition cache_get :: "(string \<Rightarrow> jsval option) \<Rightarrow> string \<Rightarrow> jsval" where
  "cache_get c key = (case c key of None \<Rightarrow> JUndefined | Some v \<Rightarrow> v)"

text \<open>
  A callback is waiting for a response, or its promise is settled. \<open>Waiting url k\<close>: the
  request for \<open>url\<close> has been made and \<open>k\<close> will take the answer.
\<close>

datatype status =
    Waiting string "error + response \<Rightarrow> prog"
  | Fulfilled
  | Rejected error

text \<open>
  JavaScript runs a callback without interruption up to its next \<^verbatim>\<open>await\<close>:
  \<open>run_sync\<close> performs the effects of a tree on the state until the tree awaits, returns
  or throws.
\<close>

primrec run_sync :: "prog \<Rightarrow> state \<Rightarrow> status \<times> state" where
  "run_sync Done s = (Fulfilled, s)"
| "run_sync (Throw e) s = (Rejected e, s)"
| "run_sync (Await url k) s = (Waiting url k, s\<lparr>trace := trace s @ [Fetch url]\<rparr>)"
| "run_sync (CacheGet key k) s =
     run_sync (k (cache_get (cache s) key)) (s\<lparr>trace := trace s @ [Get key]\<rparr>)"
| "run_sync (CacheSet key v p) s =
     run_sync p (s\<lparr>cache := (cache s)(key \<mapsto> v), trace := trace s @ [Set key v]\<rparr>)"
| "run_sync (Push v p) s =
     run_sync p (s\<lparr>items := items s @ [v], trace := trace s @ [Pushed v]\<rparr>)"


section \<open>The aggregate run\<close>

text \<open>
  \<^verbatim>\<open>Promise.all(paths.map(async (path) => ...))\<close>: the callbacks, one status each, the
  state they share, and the rejection \<^verbatim>\<open>Promise.all\<close> settles with, which is the first
  one to happen.
\<close>

record sys =
  tasks :: "status list"
  shared :: state
  rejected :: "error option"

fun is_Fulfilled :: "status \<Rightarrow> bool" where
  "is_Fulfilled Fulfilled = True"
| "is_Fulfilled t = False"

fun settle :: "status \<Rightarrow> error option \<Rightarrow> error option" where
  "settle t (Some e) = Some e"
| "settle (Rejected e) None = Some e"
| "settle t None = None"

text \<open>
  \<^verbatim>\<open>paths.map\<close> calls the callbacks in the order of the paths, and each call runs up to
  its first \<^verbatim>\<open>await\<close> before the next one starts.
\<close>

fun start_all :: "prog list \<Rightarrow> sys \<Rightarrow> sys" where
  "start_all [] y = y"
| "start_all (p # ps) y =
     (case run_sync p (shared y) of
        (t, s') \<Rightarrow> start_all ps \<lparr>tasks = tasks y @ [t], shared = s', rejected = settle t (rejected y)\<rparr>)"

text \<open>
  The answer \<open>r\<close> to the request of callback \<open>i\<close> arrives, a response or a
  rejection: the callback resumes with it and runs up to its next \<^verbatim>\<open>await\<close>. An
  answer for a callback that is not waiting changes nothing.
\<close>

definition deliver :: "sys \<Rightarrow> nat \<times> (error + response) \<Rightarrow> sys" where
  "deliver y a =
     (case a of (i, r) \<Rightarrow>
        if i < length (tasks y) then
          (case tasks y ! i of
             Waiting url k \<Rightarrow>
               (case run_sync (k r) (shared y) of
                  (t, s') \<Rightarrow> \<lparr>tasks = (tasks y)[i := t], shared = s', rejected = settle t (rejected y)\<rparr>)
           | t \<Rightarrow> y)
        else y)"

text \<open>
  Lines 94 to 97: the names of the directory that end in \<^verbatim>\<open>.yml\<close>.
\<close>

definition is_yml :: "string \<Rightarrow> bool" where
  "is_yml name = (4 \<le> length name \<and> drop (length name - 4) name = ''.yml'')"

text \<open>
  Lines 231 to 238, once \<^verbatim>\<open>Promise.all\<close> has settled: \<open>None\<close> while a callback is
  still waiting and none has been rejected.
\<close>

definition outcome :: "nat \<Rightarrow> sys \<Rightarrow> (error + jsval list) option" where
  "outcome n y =
     (case rejected y of
        Some e \<Rightarrow> Some (Inl e)
      | None \<Rightarrow>
          if list_all is_Fulfilled (tasks y) then
            Some (if length (items (shared y)) \<noteq> n
                  then Inl (IncompleteData n (length (items (shared y))))
                  else Inr (items (shared y)))
          else None)"

text \<open>
  \<open>getLibraries\<close>, lines 92 to 239. The directory is the list of its names, each with
  what loading the file gives. \<open>sched\<close> is what the fetcher does, in the order in which
  it does it: each entry names a callback and gives the answer to its pending request.
  \<open>run\<close> is the system as the answers leave it, and \<open>getLibraries\<close> the outcome of
  the promise.
\<close>

definition run :: "config \<Rightarrow> (nat \<times> (error + response)) list
    \<Rightarrow> (string \<times> (string + jsval)) list \<Rightarrow> (string \<Rightarrow> jsval option) \<Rightarrow> sys" where
  "run cfg sched dir cache0 =
     (let paths = filter (\<lambda>(name, loaded). is_yml name) dir;
          y0 = start_all (map (\<lambda>(name, loaded). task cfg name loaded) paths)
                 \<lparr>tasks = [], shared = \<lparr>cache = cache0, items = [], trace = []\<rparr>, rejected = None\<rparr>
      in foldl deliver y0 sched)"

definition getLibraries :: "config \<Rightarrow> (nat \<times> (error + response)) list
    \<Rightarrow> (string \<times> (string + jsval)) list \<Rightarrow> (string \<Rightarrow> jsval option)
    \<Rightarrow> (error + jsval list) option" where
  "getLibraries cfg sched dir cache0 =
     outcome (length (filter (\<lambda>(name, loaded). is_yml name) dir)) (run cfg sched dir cache0)"

section \<open>A callback on its own\<close>

text \<open>
  \<open>exec\<close> runs one tree to its end, every request answered by \<open>fetch\<close> as soon as it
  is made: what a callback does when no other callback touches the state in between. The
  result is the error thrown, if any, and the state.
\<close>

primrec exec :: "(string \<Rightarrow> error + response) \<Rightarrow> prog \<Rightarrow> state \<Rightarrow> error option \<times> state" where
  "exec fetch Done s = (None, s)"
| "exec fetch (Throw e) s = (Some e, s)"
| "exec fetch (Await url k) s = exec fetch (k (fetch url)) (s\<lparr>trace := trace s @ [Fetch url]\<rparr>)"
| "exec fetch (CacheGet key k) s =
     exec fetch (k (cache_get (cache s) key)) (s\<lparr>trace := trace s @ [Get key]\<rparr>)"
| "exec fetch (CacheSet key v p) s =
     exec fetch p (s\<lparr>cache := (cache s)(key \<mapsto> v), trace := trace s @ [Set key v]\<rparr>)"
| "exec fetch (Push v p) s =
     exec fetch p (s\<lparr>items := items s @ [v], trace := trace s @ [Pushed v]\<rparr>)"


section \<open>Example inputs\<close>






definition empty_state :: state where
  "empty_state = \<lparr>cache = (\<lambda>key. None), items = [], trace = []\<rparr>"


text \<open>
  A configuration, a source document with a repository and a package, and the record
  that line 111 makes of it.
\<close>

definition cfg_ex :: config where
  "cfg_ex = \<lparr>yup = \<lparr>rUrl = (\<lambda>s. take 8 s = ''https://''), json_parse = (\<lambda>s. JNull),
                      number_transform = (\<lambda>v. JNaN)\<rparr>,
             str_num = (\<lambda>s. JNaN), Features = [''sorting'', ''filtering''],
             dataDir = ''/app/data''\<rparr>"

definition doc_ex :: jsval where
  "doc_ex = JObj [(''title'', JStr ''AG Grid''), (''description'', JStr ''A data grid''),
     (''githubRepo'', JStr ''ag-grid/ag-grid''), (''npmPackage'', JStr ''ag-grid-community''),
     (''frameworks'', JObj [(''react'', JBool True)]),
     (''features'', JObj [(''sorting'', JBool True)])]"

definition github_default :: jsval where
  "github_default = JObj [(''contributors'', JUndefined), (''network'', JUndefined),
     (''subscribers'', JUndefined), (''watchers'', JUndefined), (''openIssues'', JUndefined),
     (''forks'', JUndefined), (''stars'', JUndefined), (''url'', JUndefined)]"

definition npm_default :: jsval where
  "npm_default = JObj [(''downloads'', JUndefined), (''url'', JUndefined)]"

definition bundlephobia_default :: jsval where
  "bundlephobia_default = JObj [(''gzipSize'', JUndefined), (''rawSize'', JUndefined), (''url'', JUndefined)]"

definition item_ex :: jsval where
  "item_ex = JObj [(''features'', JObj [(''sorting'', JBool True)]),
     (''frameworks'', JObj [(''react'', JBool True)]),
     (''npmPackage'', JStr ''ag-grid-community''), (''githubRepo'', JStr ''ag-grid/ag-grid''),
     (''description'', JStr ''A data grid''), (''title'', JStr ''AG Grid''),
     (''bundlephobia'', bundlephobia_default), (''npm'', npm_default), (''github'', github_default),
     (''id'', JStr ''ag-grid'')]"

text \<open>A fetcher whose repository answer names another repository.\<close>

definition fetch_moved :: "string \<Rightarrow> error + response" where
  "fetch_moved url =
     Inr \<lparr>res_props = [(''data'', JObj [(''full_name'', JStr ''ag-grid/ag-grid-enterprise'')])],
          res_link = None\<rparr>"

text \<open>A fetcher that rejects every request with a status 500.\<close>

definition fetch_500 :: "string \<Rightarrow> error + response" where
  "fetch_500 url = Inl (FetchError ''Internal Server Error'' (Some 500))"

text \<open>
  The record a callback builds when every block it asks for is in the cache, written
  from the words of the specification: the document's record with the \<^verbatim>\<open>github\<close> block
  made of the cached metadata and contributor count, and the \<^verbatim>\<open>npm\<close> and
  \<^verbatim>\<open>bundlephobia\<close> blocks as cached. \<open>warm\<close> says that the cache answers every key the
  record asks for with a value the code accepts (a truthy one, as every value the code
  writes is), and \<open>cache_reads\<close> lists the reads.
\<close>

definition github_of :: "jsval \<Rightarrow> jsval \<Rightarrow> jsval" where
  "github_of data stats =
     JObj [(''url'', sibling data ''html_url''),
           (''stars'', sibling data ''stargazers_count''),
           (''forks'', sibling data ''forks_count''),
           (''openIssues'', sibling data ''open_issues_count''),
           (''watchers'', sibling data ''watchers_count''),
           (''subscribers'', sibling data ''subscribers_count''),
           (''network'', sibling data ''network_count''),
           (''contributors'', sibling stats ''contributors'')]"

definition warm :: "(string \<Rightarrow> jsval option) \<Rightarrow> jsval \<Rightarrow> bool" where
  "warm c item =
     ((truthy (sibling item ''githubRepo'') \<longrightarrow>
         truthy (cache_get c (info_key (sibling item ''githubRepo'')))
         \<and> truthy (cache_get c (contributors_key (sibling item ''githubRepo''))))
      \<and> (truthy (sibling item ''npmPackage'') \<longrightarrow>
         truthy (cache_get c (npm_key (js_String (sibling item ''npmPackage'')))))
      \<and> (truthy (sibling item ''npmPackage'')
           \<and> strict_neq (sibling item ''ignoreBundlephobia'') (JBool True) \<longrightarrow>
         truthy (cache_get c (bundlephobia_key (js_String (sibling item ''npmPackage''))))))"

definition cached_record :: "(string \<Rightarrow> jsval option) \<Rightarrow> jsval \<Rightarrow> jsval" where
  "cached_record c item =
     (let repo = sibling item ''githubRepo'';
          pkg = sibling item ''npmPackage'';
          with_github =
            (if truthy repo
             then set_prop item ''github''
                    (github_of (cache_get c (info_key repo)) (cache_get c (contributors_key repo)))
             else item);
          with_npm =
            (if truthy pkg
             then set_prop with_github ''npm'' (cache_get c (npm_key (js_String pkg)))
             else with_github)
      in if truthy pkg \<and> strict_neq (sibling item ''ignoreBundlephobia'') (JBool True)
         then set_prop with_npm ''bundlephobia'' (cache_get c (bundlephobia_key (js_String pkg)))
         else with_npm)"

definition cache_reads :: "jsval \<Rightarrow> event list" where
  "cache_reads item =
     (let repo = sibling item ''githubRepo'';
          pkg = sibling item ''npmPackage''
      in (if truthy repo then [Get (info_key repo), Get (contributors_key repo)] else [])
         @ (if truthy pkg then [Get (npm_key (js_String pkg))] else [])
         @ (if truthy pkg \<and> strict_neq (sibling item ''ignoreBundlephobia'') (JBool True)
            then [Get (bundlephobia_key (js_String pkg))] else []))"

text \<open>A cache that holds the four entries of the example record, and the record they give.\<close>

definition cache_ex :: "string \<Rightarrow> jsval option" where
  "cache_ex key =
     (if key = ''gh-ag-grid/ag-grid-info'' then
        Some (JObj [(''full_name'', JStr ''ag-grid/ag-grid''),
                    (''html_url'', JStr ''https://github.com/ag-grid/ag-grid''),
                    (''stargazers_count'', JNum 9000), (''forks_count'', JNum 1500),
                    (''open_issues_count'', JNum 60), (''watchers_count'', JNum 9000),
                    (''subscribers_count'', JNum 200), (''network_count'', JNum 1500)])
      else if key = ''gh-ag-grid/ag-grid-contributors'' then Some (JObj [(''contributors'', JNum 242)])
      else if key = ''npm-ag-grid-community'' then
        Some (JObj [(''url'', JStr ''https://www.npmjs.com/package/ag-grid-community''),
                    (''downloads'', JNum 400000)])
      else if key = ''bundlephobia-ag-grid-community'' then
        Some (JObj [(''url'', JStr ''https://bundlephobia.com/result?p=ag-grid-community''),
                    (''rawSize'', JNum 900000), (''gzipSize'', JNum 250000)])
      else None)"

definition record_ex :: jsval where
  "record_ex = JObj [(''features'', JObj [(''sorting'', JBool True)]),
     (''frameworks'', JObj [(''react'', JBool True)]),
     (''npmPackage'', JStr ''ag-grid-community''), (''githubRepo'', JStr ''ag-grid/ag-grid''),
     (''description'', JStr ''A data grid''), (''title'', JStr ''AG Grid''),
     (''bundlephobia'', JObj [(''url'', JStr ''https://bundlephobia.com/result?p=ag-grid-community''),
                              (''rawSize'', JNum 900000), (''gzipSize'', JNum 250000)]),
     (''npm'', JObj [(''url'', JStr ''https://www.npmjs.com/package/ag-grid-community''),
                     (''downloads'', JNum 400000)]),
     (''github'', JObj [(''url'', JStr ''https://github.com/ag-grid/ag-grid''),
                        (''stars'', JNum 9000), (''forks'', JNum 1500), (''openIssues'', JNum 60),
                        (''watchers'', JNum 9000), (''subscribers'', JNum 200),
                        (''network'', JNum 1500), (''contributors'', JNum 242)]),
     (''id'', JStr ''ag-grid'')]"

text \<open>
  The same cache with the download count of the package held as the string
  \<^verbatim>\<open>"12"\<close>, and the configuration with a number transform that reads a string of
  decimal digits as the number it writes, which is what \<^verbatim>\<open>parseFloat\<close> makes of it.
\<close>

definition cache_str :: "string \<Rightarrow> jsval option" where
  "cache_str key =
     (if key = ''npm-ag-grid-community'' then
        Some (JObj [(''url'', JStr ''https://www.npmjs.com/package/ag-grid-community''),
                    (''downloads'', JStr ''12'')])
      else cache_ex key)"

definition cfg_num :: config where
  "cfg_num = \<lparr>yup = \<lparr>rUrl = (\<lambda>s. take 8 s = ''https://''), json_parse = (\<lambda>s. JNull),
                       number_transform =
                         (\<lambda>v. case v of
                            JStr s \<Rightarrow> if s \<noteq> [] \<and> list_all is_digit s then JNum (digits_value s) else JNaN
                          | _ \<Rightarrow> JNaN)\<rparr>,
              str_num = (\<lambda>s. JNaN), Features = [''sorting'', ''filtering''],
              dataDir = ''/app/data''\<rparr>"

text \<open>
  Properties of a tree that the proofs about the aggregate run rest on.
  \<open>pushes_last\<close>: on every path the tree returns right after its one \<^verbatim>\<open>items.push\<close>,
  and never throws the error of line 233. \<open>sets_after_await\<close>: the tree writes to the
  cache only after an \<^verbatim>\<open>await\<close>.
\<close>

primrec pushes_last :: "prog \<Rightarrow> bool" where
  "pushes_last Done = False"
| "pushes_last (Throw e) = (\<forall>n m. e \<noteq> IncompleteData n m)"
| "pushes_last (Await url k) = (\<forall>r. pushes_last (k r))"
| "pushes_last (CacheGet key k) = (\<forall>v. pushes_last (k v))"
| "pushes_last (CacheSet key v p) = pushes_last p"
| "pushes_last (Push v p) = (p = Done)"

primrec sets_after_await :: "prog \<Rightarrow> bool" where
  "sets_after_await Done = True"
| "sets_after_await (Throw e) = True"
| "sets_after_await (Await url k) = True"
| "sets_after_await (CacheGet key k) = (\<forall>v. sets_after_await (k v))"
| "sets_after_await (CacheSet key v p) = False"
| "sets_after_await (Push v p) = sets_after_await p"

text \<open>
  What holds of the callbacks at every moment of a run: a waiting callback will push
  last, there are as many items as fulfilled callbacks, and the recorded rejection is
  that of some callback, if any callback is rejected.
\<close>

fun status_ok :: "status \<Rightarrow> bool" where
  "status_ok (Waiting url k) = (\<forall>r. pushes_last (k r))"
| "status_ok Fulfilled = True"
| "status_ok (Rejected e) = (\<forall>n m. e \<noteq> IncompleteData n m)"

fun is_Rejected :: "status \<Rightarrow> bool" where
  "is_Rejected (Rejected e) = True"
| "is_Rejected t = False"

fun is_Waiting :: "status \<Rightarrow> bool" where
  "is_Waiting (Waiting url k) = True"
| "is_Waiting t = False"

definition tasks_ok :: "sys \<Rightarrow> bool" where
  "tasks_ok y =
     ((\<forall>t \<in> set (tasks y). status_ok t)
      \<and> length (items (shared y)) = length (filter is_Fulfilled (tasks y))
      \<and> (case rejected y of
            None \<Rightarrow> (\<forall>t \<in> set (tasks y). \<not> is_Rejected t)
          | Some e \<Rightarrow> Rejected e \<in> set (tasks y)))"

text \<open>
  A directory is warm for a cache when the cache answers every key that the record of
  each of its documents asks for. A file that does not load or does not validate asks
  for nothing.
\<close>

definition warm_file :: "config \<Rightarrow> (string \<Rightarrow> jsval option) \<Rightarrow> string \<times> (string + jsval) \<Rightarrow> bool" where
  "warm_file cfg c entry =
     (case entry of
        (name, Inl text) \<Rightarrow> True
      | (name, Inr obj) \<Rightarrow>
          (case validateSync (yup cfg) (yamlSchema (Features cfg)) obj of
             Inl e \<Rightarrow> True
           | Inr checked \<Rightarrow>
               (case validateSync (yup cfg) (libraryInfoSchema (Features cfg)) (with_id (basename_yml name) obj) of
                  Inl e \<Rightarrow> True
                | Inr item \<Rightarrow> warm c item)))"

definition warm_dir :: "config \<Rightarrow> (string \<Rightarrow> jsval option) \<Rightarrow> (string \<times> (string + jsval)) list \<Rightarrow> bool" where
  "warm_dir cfg c dir = list_all (warm_file cfg c) (filter (\<lambda>(name, loaded). is_yml name) dir)"

text \<open>A directory of two documents and one other file, and the empty cache.\<close>

definition doc_plain :: jsval where
  "doc_plain = JObj [(''title'', JStr ''Plain Table''), (''description'', JStr ''A table''),
     (''frameworks'', JObj [(''vanilla'', JBool True)]),
     (''features'', JObj [])]"

definition dir_ex :: "(string \<times> (string + jsval)) list" where
  "dir_ex = [(''ag-grid.yml'', Inr doc_ex), (''README.md'', Inl ''not a document''),
             (''plain.yml'', Inr doc_plain)]"

definition no_cache :: "string \<Rightarrow> jsval option" where
  "no_cache key = None"

text \<open>
  The fields of \<open>libraryInfoSchema\<close> written out, block by block, and the schemas whose
  cast and test look at nothing but the value: every one but the object and the
  condition.
\<close>

fun scalar :: "schema \<Rightarrow> bool" where
  "scalar (Object_schema flds) = False"
| "scalar (When key is_fn then_s otherwise_s) = False"
| "scalar s = True"

definition github_fields :: "(string \<times> schema) list" where
  "github_fields = [(''url'', String_schema [Url]), (''stars'', Number_schema), (''forks'', Number_schema),
     (''openIssues'', Number_schema), (''watchers'', Number_schema), (''subscribers'', Number_schema),
     (''network'', Number_schema), (''contributors'', Number_schema)]"

definition npm_fields :: "(string \<times> schema) list" where
  "npm_fields = [(''url'', String_schema [Url]), (''downloads'', Number_schema)]"

definition bundlephobia_fields :: "(string \<times> schema) list" where
  "bundlephobia_fields = [(''url'', String_schema [Url]), (''rawSize'', Number_schema), (''gzipSize'', Number_schema)]"

definition library_fields :: "string list \<Rightarrow> (string \<times> schema) list" where
  "library_fields Fs =
     [(''id'', String_schema [Required]),
      (''github'', Object_schema github_fields),
      (''npm'', Object_schema npm_fields),
      (''bundlephobia'', Object_schema bundlephobia_fields),
      (''title'', String_schema [Required]),
      (''description'', String_schema [Required]),
      (''homeUrl'', String_schema [Url]),
      (''demoUrl'', String_schema [Url]),
      (''githubRepo'', githubRepoSchema),
      (''npmPackage'', String_schema []),
      (''ignoreBundlephobia'', Boolean_schema),
      (''license'', String_schema []),
      (''revenueModel'', String_schema []),
      (''frameworks'', frameworksSchema),
      (''features'', Object_schema (map (\<lambda>key. (key, booleanOrString)) Fs))]"

text \<open>
  Effects that touch the bundle-size service: a request to it, or a cache access under
  one of its keys. \<open>quiet Q\<close> holds of an effect that is no such access and, when it
  pushes a record, pushes one that satisfies \<open>Q\<close>. \<open>only_events P\<close> holds of a tree
  all of whose effects satisfy \<open>P\<close>. \<open>derived item it\<close>: the record \<open>it\<close> is \<open>item\<close>
  with at most the \<^verbatim>\<open>github\<close> and \<^verbatim>\<open>npm\<close> properties assigned.
\<close>

fun bundle_access :: "event \<Rightarrow> bool" where
  "bundle_access (Fetch url) = (take 24 url = ''https://bundlephobia.com'')"
| "bundle_access (Get key) = (take 13 key = ''bundlephobia-'')"
| "bundle_access (Set key v) = (take 13 key = ''bundlephobia-'')"
| "bundle_access (Pushed v) = False"

fun quiet :: "(jsval \<Rightarrow> bool) \<Rightarrow> event \<Rightarrow> bool" where
  "quiet Q (Pushed v) = Q v"
| "quiet Q e = (\<not> bundle_access e)"

primrec only_events :: "(event \<Rightarrow> bool) \<Rightarrow> prog \<Rightarrow> bool" where
  "only_events P Done = True"
| "only_events P (Throw e) = True"
| "only_events P (Await url k) = (P (Fetch url) \<and> (\<forall>r. only_events P (k r)))"
| "only_events P (CacheGet key k) = (P (Get key) \<and> (\<forall>v. only_events P (k v)))"
| "only_events P (CacheSet key v p) = (P (Set key v) \<and> only_events P p)"
| "only_events P (Push v p) = (P (Pushed v) \<and> only_events P p)"

definition derived :: "jsval \<Rightarrow> jsval \<Rightarrow> bool" where
  "derived item it =
     (is_object it \<and> (\<forall>k. k \<noteq> ''github'' \<and> k \<noteq> ''npm'' \<longrightarrow> sibling it k = sibling item k))"

text \<open>
  A document that has a package and sets \<^verbatim>\<open>ignoreBundlephobia\<close>, the record that line
  111 makes of it, and a state with the example cache.
\<close>

definition doc_ignore :: jsval where
  "doc_ignore = JObj [(''title'', JStr ''AG Grid''), (''description'', JStr ''A data grid''),
     (''npmPackage'', JStr ''ag-grid-community''), (''ignoreBundlephobia'', JBool True),
     (''frameworks'', JObj [(''react'', JBool True)]),
     (''features'', JObj [(''sorting'', JBool True)])]"

definition item_ignore :: jsval where
  "item_ignore = JObj [(''features'', JObj [(''sorting'', JBool True)]),
     (''frameworks'', JObj [(''react'', JBool True)]),
     (''ignoreBundlephobia'', JBool True), (''npmPackage'', JStr ''ag-grid-community''),
     (''description'', JStr ''A data grid''), (''title'', JStr ''AG Grid''),
     (''bundlephobia'', bundlephobia_default), (''npm'', npm_default), (''github'', github_default),
     (''id'', JStr ''ag-grid'')]"

definition warm_state :: state where
  "warm_state = \<lparr>cache = cache_ex, items = [], trace = []\<rparr>"

text \<open>
  The fields of \<open>yamlSchema\<close> and of its \<^verbatim>\<open>features\<close> object, written out.
\<close>

definition feature_fields :: "string list \<Rightarrow> (string \<times> schema) list" where
  "feature_fields Fs = map (\<lambda>key. (key, booleanOrString)) Fs"

definition yaml_fields :: "string list \<Rightarrow> (string \<times> schema) list" where
  "yaml_fields Fs =
     [(''title'', String_schema [Required]),
      (''description'', String_schema [Required]),
      (''homeUrl'', String_schema [Url]),
      (''demoUrl'', String_schema [Url]),
      (''githubRepo'', githubRepoSchema),
      (''npmPackage'', String_schema []),
      (''ignoreBundlephobia'', Boolean_schema),
      (''license'', String_schema []),
      (''revenueModel'', String_schema []),
      (''frameworks'', frameworksSchema),
      (''features'', Object_schema (feature_fields Fs))]"

text \<open>
  A document whose \<^verbatim>\<open>frameworks\<close> names \<^verbatim>\<open>svelte\<close>, which is none of the six
  frameworks, and whose \<^verbatim>\<open>features\<close> has the one key \<open>k\<close>; and a document whose
  \<^verbatim>\<open>frameworks.react\<close> is a URL.
\<close>

definition doc_unknown :: "string \<Rightarrow> jsval" where
  "doc_unknown k = JObj [(''title'', JStr ''Grid''), (''description'', JStr ''A grid''),
     (''frameworks'', JObj [(''svelte'', JBool True)]),
     (''features'', JObj [(k, JBool True)])]"

definition doc_url :: jsval where
  "doc_url = JObj [(''title'', JStr ''Grid''), (''description'', JStr ''A grid''),
     (''frameworks'', JObj [(''react'', JStr ''https://example.com/docs'')]),
     (''features'', JObj [])]"

text \<open>The same document with the unknown framework only.\<close>

definition doc_svelte :: jsval where
  "doc_svelte = JObj [(''title'', JStr ''Grid''), (''description'', JStr ''A grid''),
     (''frameworks'', JObj [(''svelte'', JBool True)]),
     (''features'', JObj [])]"

text \<open>
  \<open>validates\<close>: \<^verbatim>\<open>validateSync\<close> returns. \<open>entry_ok\<close>: an entry \<open>v\<close> passes the
  conditional schema \<open>w\<close> in an object whose property \<open>dkey\<close>, the one the condition
  reads, is \<open>flag\<close>. \<open>framework_names\<close> are the keys of lines 31 to 36. The properties
  of two documents follow: one with keys of the enumerations only, and the same one with
  a framework and a feature that are in neither.
\<close>

definition validates :: "yup_lib \<Rightarrow> schema \<Rightarrow> jsval \<Rightarrow> bool" where
  "validates L s v = (case validateSync L s v of Inl e \<Rightarrow> False | Inr r \<Rightarrow> True)"

definition entry_ok :: "yup_lib \<Rightarrow> schema \<Rightarrow> string \<Rightarrow> jsval \<Rightarrow> jsval \<Rightarrow> bool" where
  "entry_ok L w dkey flag v =
     (case cast L w (JObj [(dkey, flag)]) v of
        Inl e \<Rightarrow> False
      | Inr x \<Rightarrow> validate L w (JObj [(dkey, flag)]) x)"

definition framework_names :: "string list" where
  "framework_names = [''vanilla'', ''react'', ''vue'', ''angular'', ''jquery'', ''ember'']"

definition doc_known :: "(string \<times> jsval) list" where
  "doc_known = [(''title'', JStr ''Grid''), (''description'', JStr ''A grid''),
     (''frameworks'', JObj [(''react'', JBool True)]),
     (''features'', JObj [(''sorting'', JBool True)])]"

definition doc_extra :: "(string \<times> jsval) list" where
  "doc_extra = [(''title'', JStr ''Grid''), (''description'', JStr ''A grid''),
     (''frameworks'', JObj [(''react'', JBool True), (''svelte'', JBool True)]),
     (''features'', JObj [(''sorting'', JBool True), (''tree-shaking'', JBool True)])]"

section \<open>Properties\<close>

subsection \<open>The contributor count\<close>






















subsection \<open>A repository that has moved\<close>

lemma doc_ex_valid:
  "validateSync (yup cfg_ex) (yamlSchema (Features cfg_ex)) doc_ex = Inr doc_ex"
  by code_simp

lemma doc_ex_item:
  "validateSync (yup cfg_ex) (libraryInfoSchema (Features cfg_ex)) (with_id (basename_yml ''ag-grid.yml'') doc_ex)
     = Inr item_ex"
  by code_simp

text \<open>
  C4. A source document that validates to a record with a repository, and no usable
  cache entry for the repository's metadata: if the answer's \<^verbatim>\<open>full_name\<close> is not the
  declared repository, the callback throws the error of line 132 around the error of
  line 125, after one cache read and one request. The cache is left as it was, so
  nothing is written under \<^verbatim>\<open>gh-{repo}-info\<close>.
\<close>

theorem repo_moved_fails:
  assumes valid: "validateSync (yup cfg) (yamlSchema (Features cfg)) obj = Inr checked"
    and item: "validateSync (yup cfg) (libraryInfoSchema (Features cfg)) (with_id (basename_yml name) obj) = Inr item"
    and repo: "truthy (sibling item ''githubRepo'')"
    and miss: "\<not> truthy (cache_get (cache s) (info_key (sibling item ''githubRepo'')))"
    and resp: "fetch (repo_url (sibling item ''githubRepo'')) = Inr res"
    and full: "get_prop (get_key (res_props res) ''data'') ''full_name'' = Inr full_name"
    and moved: "strict_neq full_name (sibling item ''githubRepo'')"
  shows "exec fetch (task cfg name (Inr obj)) s =
           (Some (GitHubDataError (basename_yml name)
                    (RepoMoved (js_String (sibling item ''githubRepo'')) full_name)),
            s\<lparr>trace := trace s @ [Get (info_key (sibling item ''githubRepo'')),
                                  Fetch (repo_url (sibling item ''githubRepo''))]\<rparr>)"
  using assms by (simp add: task_def github_def Let_def)

theorem repo_moved_fails_witness:
  "exec fetch_moved (task cfg_ex ''ag-grid.yml'' (Inr doc_ex)) empty_state =
     (Some (GitHubDataError ''ag-grid'' (RepoMoved ''ag-grid/ag-grid'' (JStr ''ag-grid/ag-grid-enterprise''))),
      empty_state\<lparr>trace := [Get ''gh-ag-grid/ag-grid-info'',
                              Fetch ''https://api.github.com/repos/ag-grid/ag-grid'']\<rparr>)"
proof -
  have repo: "sibling item_ex ''githubRepo'' = JStr ''ag-grid/ag-grid''"
    by code_simp
  have miss: "\<not> truthy (cache_get (cache empty_state) (info_key (sibling item_ex ''githubRepo'')))"
    by (simp add: empty_state_def cache_get_def)
  have full: "get_prop (get_key (res_props \<lparr>res_props = [(''data'', JObj [(''full_name'', JStr ''ag-grid/ag-grid-enterprise'')])],
          res_link = None\<rparr>) ''data'') ''full_name'' = Inr (JStr ''ag-grid/ag-grid-enterprise'')"
    by (simp add: get_key_def)
  have moved: "strict_neq (JStr ''ag-grid/ag-grid-enterprise'') (sibling item_ex ''githubRepo'')"
    by (simp add: repo strict_neq_def)
  have base: "basename_yml ''ag-grid.yml'' = ''ag-grid''"
    by (simp add: basename_yml_def)
  have key: "info_key (JStr ''ag-grid/ag-grid'') = ''gh-ag-grid/ag-grid-info''"
    by (simp add: info_key_def)
  have url: "repo_url (JStr ''ag-grid/ag-grid'') = ''https://api.github.com/repos/ag-grid/ag-grid''"
    by (simp add: repo_url_def)
  have "truthy (sibling item_ex ''githubRepo'')"
    by (simp add: repo)
  from repo_moved_fails [OF doc_ex_valid doc_ex_item this miss _ full moved, of fetch_moved]
  show ?thesis
    by (simp add: fetch_moved_def repo base key url empty_state_def)
qed

subsection \<open>A failing bundle-size request\<close>

text \<open>
  C7. A record that asks for bundle sizes and has no usable cache entry for them: if the
  fetcher rejects the request, the callback throws the error of line 217, which names
  the package either way, after one cache read and one request. The rest of the callback
  is not run, so no record is pushed.
\<close>

theorem bundlephobia_failure_is_hard:
  assumes pkg: "truthy (sibling item ''npmPackage'')"
    and wanted: "strict_neq (sibling item ''ignoreBundlephobia'') (JBool True)"
    and miss: "\<not> truthy (cache_get (cache s) (bundlephobia_key (js_String (sibling item ''npmPackage''))))"
    and fails: "fetch (bundlephobia_url (js_String (sibling item ''npmPackage''))) = Inl err"
  shows "exec fetch (bundlephobia item k) s =
           (Some (case response_status err of
                    Some status \<Rightarrow> BundlephobiaStatus status (js_String (sibling item ''npmPackage''))
                  | None \<Rightarrow> BundlephobiaFailed (js_String (sibling item ''npmPackage'')) err),
            s\<lparr>trace := trace s @ [Get (bundlephobia_key (js_String (sibling item ''npmPackage''))),
                                  Fetch (bundlephobia_url (js_String (sibling item ''npmPackage'')))]\<rparr>)"
  using assms by (simp add: bundlephobia_def Let_def)

theorem bundlephobia_failure_is_hard_witness:
  "exec fetch_500 (bundlephobia item_ex (\<lambda>item. Push item Done)) empty_state =
     (Some (BundlephobiaStatus 500 ''ag-grid-community''),
      empty_state\<lparr>trace := [Get ''bundlephobia-ag-grid-community'',
                              Fetch ''https://bundlephobia.com/api/size?package=ag-grid-community'']\<rparr>)"
proof -
  have pkg: "sibling item_ex ''npmPackage'' = JStr ''ag-grid-community''"
    by code_simp
  have ign: "sibling item_ex ''ignoreBundlephobia'' = JUndefined"
    by code_simp
  have miss: "\<not> truthy (cache_get (cache empty_state)
                 (bundlephobia_key (js_String (sibling item_ex ''npmPackage''))))"
    by (simp add: empty_state_def cache_get_def)
  have fails: "fetch_500 (bundlephobia_url (js_String (sibling item_ex ''npmPackage'')))
                 = Inl (FetchError ''Internal Server Error'' (Some 500))"
    by (simp add: fetch_500_def)
  have "truthy (sibling item_ex ''npmPackage'')"
    by (simp add: pkg)
  moreover have "strict_neq (sibling item_ex ''ignoreBundlephobia'') (JBool True)"
    by (simp add: ign strict_neq_def)
  ultimately show ?thesis
    using miss fails
      bundlephobia_failure_is_hard [where item = item_ex and s = empty_state and fetch = fetch_500
        and err = "FetchError ''Internal Server Error'' (Some 500)" and k = "\<lambda>item. Push item Done"]
    by (simp add: pkg bundlephobia_key_def bundlephobia_url_def empty_state_def)
qed

subsection \<open>A record served from the cache\<close>

lemma get_prop_truthy:
  "truthy v \<Longrightarrow> name \<noteq> ''length'' \<Longrightarrow> get_prop v name = Inr (sibling v name)"
  by (cases v) simp_all

lemma github_block_truthy:
  "truthy data \<Longrightarrow> truthy stats \<Longrightarrow> github_block data stats = Inr (github_of data stats)"
  by (simp add: github_block_def github_of_def get_prop_truthy)

lemma get_key_set_key_other: "k \<noteq> k' \<Longrightarrow> get_key (set_key kvs k' v) k = get_key kvs k"
  by (induction kvs) (auto simp add: get_key_def)

lemma get_key_set_key_same: "get_key (set_key kvs k v) k = v"
  by (induction kvs) (auto simp add: get_key_def)

lemma sibling_set_prop_other: "k \<noteq> k' \<Longrightarrow> sibling (set_prop item k' v) k = sibling item k"
  by (cases item) (simp_all add: get_key_set_key_other)

lemma github_cached:
  assumes "truthy (sibling item ''githubRepo'')"
    and "truthy (cache_get (cache s) (info_key (sibling item ''githubRepo'')))"
    and "truthy (cache_get (cache s) (contributors_key (sibling item ''githubRepo'')))"
  shows "run_sync (github sn js_id item k) s =
     run_sync (k (set_prop item ''github''
          (github_of (cache_get (cache s) (info_key (sibling item ''githubRepo'')))
                     (cache_get (cache s) (contributors_key (sibling item ''githubRepo''))))))
       (s\<lparr>trace := trace s @ [Get (info_key (sibling item ''githubRepo'')),
                              Get (contributors_key (sibling item ''githubRepo''))]\<rparr>)"
  using assms by (simp add: github_def github_stats_def Let_def github_block_truthy)

lemma github_skipped:
  "\<not> truthy (sibling item ''githubRepo'') \<Longrightarrow> github sn js_id item k = k item"
  by (simp add: github_def Let_def)

lemma npm_cached:
  assumes "truthy (sibling item ''npmPackage'')"
    and "truthy (cache_get (cache s) (npm_key (js_String (sibling item ''npmPackage''))))"
  shows "run_sync (npm item k) s =
     run_sync (k (set_prop item ''npm'' (cache_get (cache s) (npm_key (js_String (sibling item ''npmPackage''))))))
       (s\<lparr>trace := trace s @ [Get (npm_key (js_String (sibling item ''npmPackage'')))]\<rparr>)"
  using assms by (simp add: npm_def Let_def)

lemma npm_skipped:
  "\<not> truthy (sibling item ''npmPackage'') \<Longrightarrow> npm item k = k item"
  by (simp add: npm_def)

lemma bundlephobia_cached:
  assumes "truthy (sibling item ''npmPackage'')"
    and "strict_neq (sibling item ''ignoreBundlephobia'') (JBool True)"
    and "truthy (cache_get (cache s) (bundlephobia_key (js_String (sibling item ''npmPackage''))))"
  shows "run_sync (bundlephobia item k) s =
     run_sync (k (set_prop item ''bundlephobia'' (cache_get (cache s) (bundlephobia_key (js_String (sibling item ''npmPackage''))))))
       (s\<lparr>trace := trace s @ [Get (bundlephobia_key (js_String (sibling item ''npmPackage'')))]\<rparr>)"
  using assms by (simp add: bundlephobia_def Let_def)

lemma bundlephobia_skipped:
  "\<not> (truthy (sibling item ''npmPackage'') \<and> strict_neq (sibling item ''ignoreBundlephobia'') (JBool True))
     \<Longrightarrow> bundlephobia item k = k item"
  by (auto simp add: bundlephobia_def)

lemma run_sync_exec:
  "run_sync p s = (t, s') \<Longrightarrow> t = Fulfilled \<Longrightarrow> exec fetch p s = (None, s')"
  "run_sync p s = (t, s') \<Longrightarrow> t = Rejected e \<Longrightarrow> exec fetch p s = (Some e, s')"
  by (induction p arbitrary: s) auto

lemma task_cached:
  assumes valid: "validateSync (yup cfg) (yamlSchema (Features cfg)) obj = Inr checked"
    and item: "validateSync (yup cfg) (libraryInfoSchema (Features cfg)) (with_id (basename_yml name) obj) = Inr item"
    and warm: "warm (cache s) item"
  shows "run_sync (task cfg name (Inr obj)) s =
     (case validateSync (yup cfg) (libraryInfoSchema (Features cfg)) (cached_record (cache s) item) of
        Inl e \<Rightarrow> (Rejected e, s\<lparr>trace := trace s @ cache_reads item\<rparr>)
      | Inr record \<Rightarrow>
          (Fulfilled, s\<lparr>items := items s @ [record],
                         trace := trace s @ cache_reads item @ [Pushed record]\<rparr>))"
proof (cases "truthy (sibling item ''githubRepo'')")
  case repo: True
  show ?thesis
  proof (cases "truthy (sibling item ''npmPackage'')")
    case pkg: True
    show ?thesis
    proof (cases "strict_neq (sibling item ''ignoreBundlephobia'') (JBool True)")
      case True
      with repo pkg valid item warm show ?thesis
        by (simp add: task_def warm_def cached_record_def cache_reads_def Let_def github_cached
            npm_cached bundlephobia_cached sibling_set_prop_other split: sum.splits)
    next
      case False
      with repo pkg valid item warm show ?thesis
        by (simp add: task_def warm_def cached_record_def cache_reads_def Let_def github_cached
            npm_cached bundlephobia_skipped sibling_set_prop_other split: sum.splits)
    qed
  next
    case False
    with repo valid item warm show ?thesis
      by (simp add: task_def warm_def cached_record_def cache_reads_def Let_def github_cached
          npm_skipped bundlephobia_skipped sibling_set_prop_other split: sum.splits)
  qed
next
  case norepo: False
  show ?thesis
  proof (cases "truthy (sibling item ''npmPackage'')")
    case pkg: True
    show ?thesis
    proof (cases "strict_neq (sibling item ''ignoreBundlephobia'') (JBool True)")
      case True
      with norepo pkg valid item warm show ?thesis
        by (simp add: task_def warm_def cached_record_def cache_reads_def Let_def github_skipped
            npm_cached bundlephobia_cached sibling_set_prop_other split: sum.splits)
    next
      case False
      with norepo pkg valid item warm show ?thesis
        by (simp add: task_def warm_def cached_record_def cache_reads_def Let_def github_skipped
            npm_cached bundlephobia_skipped sibling_set_prop_other split: sum.splits)
    qed
  next
    case False
    with norepo valid item warm show ?thesis
      by (simp add: task_def warm_def cached_record_def cache_reads_def Let_def github_skipped
          npm_skipped bundlephobia_skipped sibling_set_prop_other split: sum.splits)
  qed
qed

subsection \<open>Every callback pushes once\<close>

lemma getDefault_error:
  "getDefault s = Inl e \<Longrightarrow> e = TypeError"
  "getDefaults flds = Inl e \<Longrightarrow> e = TypeError"
  by (induction s and flds rule: getDefault_getDefaults.induct) (auto split: if_splits sum.splits)

lemma cast_error:
  "cast L s p v = Inl e \<Longrightarrow> e = TypeError"
  "cast_fields L flds kvs built = Inl e \<Longrightarrow> e = TypeError"
proof (induction L s p v and L flds kvs built rule: cast_cast_fields.induct)
  case (6 L flds parent v)
  then show ?case
    by (auto simp add: Let_def split: if_splits sum.splits jsval.splits dest: getDefault_error)
qed (auto split: if_splits sum.splits)

lemma validateSync_error:
  "validateSync L s v = Inl e \<Longrightarrow> e = ValidationError \<or> e = TypeError"
  by (auto simp add: validateSync_def split: sum.splits if_splits dest: cast_error(1))

lemma get_props_error: "get_props v names = Inl e \<Longrightarrow> e = TypeError"
  by (induction names arbitrary: e) (auto split: sum.splits elim: get_prop.elims)

lemma github_block_error: "github_block data stats = Inl e \<Longrightarrow> e = TypeError"
  by (auto simp add: github_block_def split: sum.splits dest: get_props_error elim: get_prop.elims)

lemma pushes_last_github_stats:
  "(\<And>stats. pushes_last (k stats)) \<Longrightarrow> pushes_last (github_stats sn js_id repo k)"
  by (auto simp add: github_stats_def Let_def split: sum.splits)

lemma pushes_last_github:
  "(\<And>it. pushes_last (k it)) \<Longrightarrow> pushes_last (github sn js_id item k)"
  by (auto simp add: github_def Let_def split: sum.splits
      intro!: pushes_last_github_stats dest: github_block_error)

lemma pushes_last_npm:
  "(\<And>it. pushes_last (k it)) \<Longrightarrow> pushes_last (npm item k)"
  by (auto simp add: npm_def Let_def split: sum.splits)

lemma pushes_last_bundlephobia:
  "(\<And>it. pushes_last (k it)) \<Longrightarrow> pushes_last (bundlephobia item k)"
  by (auto simp add: bundlephobia_def Let_def split: sum.splits option.splits)

lemma pushes_last_task: "pushes_last (task cfg name loaded)"
  by (auto simp add: task_def Let_def split: sum.splits
      intro!: pushes_last_github pushes_last_npm pushes_last_bundlephobia dest: validateSync_error)

lemma run_sync_pushes_last:
  "pushes_last p \<Longrightarrow> run_sync p s = (t, s') \<Longrightarrow>
     status_ok t \<and> length (items s') = length (items s) + (if is_Fulfilled t then 1 else 0)"
proof (induction p arbitrary: s)
  case (Await url k)
  then show ?case by auto
next
  case (CacheGet key k)
  from CacheGet.prems have "pushes_last (k (cache_get (cache s) key))" by simp
  from CacheGet.IH [OF rangeI this, of "s\<lparr>trace := trace s @ [Get key]\<rparr>"]
    CacheGet.prems(2)
  show ?case by simp
next
  case (CacheSet key v p)
  from CacheSet.IH [of "s\<lparr>cache := (cache s)(key \<mapsto> v), trace := trace s @ [Set key v]\<rparr>"]
    CacheSet.prems
  show ?case by simp
qed auto

lemma settle_cases:
  "settle t r = (case r of Some e \<Rightarrow> Some e | None \<Rightarrow> (case t of Rejected e \<Rightarrow> Some e | _ \<Rightarrow> None))"
  by (cases r; cases t) simp_all

lemma tasks_ok_add:
  assumes ok: "tasks_ok y" and p: "pushes_last p" and r: "run_sync p (shared y) = (t, s')"
  shows "tasks_ok \<lparr>tasks = tasks y @ [t], shared = s', rejected = settle t (rejected y)\<rparr>"
proof -
  from run_sync_pushes_last [OF p r] have t: "status_ok t"
    and len: "length (items s') = length (items (shared y)) + (if is_Fulfilled t then 1 else 0)"
    by simp_all
  from ok t len show ?thesis
    by (cases t; cases "rejected y") (auto simp add: tasks_ok_def)
qed

lemma start_all_ok:
  "tasks_ok y \<Longrightarrow> list_all pushes_last ps \<Longrightarrow>
     tasks_ok (start_all ps y) \<and> length (tasks (start_all ps y)) = length (tasks y) + length ps"
proof (induction ps arbitrary: y)
  case Nil
  then show ?case by simp
next
  case (Cons p ps)
  obtain t s' where r: "run_sync p (shared y) = (t, s')" by (cases "run_sync p (shared y)")
  from Cons.prems have p: "pushes_last p" and ps: "list_all pushes_last ps" by simp_all
  from Cons.IH [OF tasks_ok_add [OF Cons.prems(1) p r] ps] r show ?case by simp
qed

lemma filter_update_count:
  "i < length xs \<Longrightarrow> \<not> P (xs ! i) \<Longrightarrow>
     length (filter P (xs[i := t])) = length (filter P xs) + (if P t then 1 else 0)"
proof (induction xs arbitrary: i)
  case Nil
  then show ?case by simp
next
  case (Cons x xs)
  then show ?case by (cases i) auto
qed

lemma deliver_ok:
  assumes ok: "tasks_ok y"
  shows "tasks_ok (deliver y (i, r)) \<and> length (tasks (deliver y (i, r))) = length (tasks y)"
proof (cases "i < length (tasks y)")
  case False
  with ok show ?thesis by (simp add: deliver_def)
next
  case i: True
  show ?thesis
  proof (cases "tasks y ! i")
    case (Waiting url k)
    obtain t s' where r: "run_sync (k r) (shared y) = (t, s')"
      by (cases "run_sync (k r) (shared y)")
    from nth_mem [OF i] Waiting have "Waiting url k \<in> set (tasks y)" by simp
    with ok have "status_ok (Waiting url k)"
      unfolding tasks_ok_def by blast
    then have p: "pushes_last (k r)" by simp
    from run_sync_pushes_last [OF p r] have t: "status_ok t"
      and len: "length (items s') = length (items (shared y)) + (if is_Fulfilled t then 1 else 0)"
      by simp_all
    have d: "deliver y (i, r) = \<lparr>tasks = (tasks y)[i := t], shared = s', rejected = settle t (rejected y)\<rparr>"
      using i Waiting r by (simp add: deliver_def)
    have cnt: "length (filter is_Fulfilled ((tasks y)[i := t]))
        = length (filter is_Fulfilled (tasks y)) + (if is_Fulfilled t then 1 else 0)"
      using i Waiting by (simp add: filter_update_count)
    have all: "\<forall>x \<in> set ((tasks y)[i := t]). status_ok x"
      using ok t by (auto simp add: tasks_ok_def dest!: set_update_subset_insert [THEN subsetD])
    have rej: "(case settle t (rejected y) of
            None \<Rightarrow> (\<forall>x \<in> set ((tasks y)[i := t]). \<not> is_Rejected x)
          | Some e \<Rightarrow> Rejected e \<in> set ((tasks y)[i := t]))"
    proof (cases "rejected y")
      case None
      with ok have no: "\<forall>x \<in> set (tasks y). \<not> is_Rejected x" by (simp add: tasks_ok_def)
      show ?thesis
      proof (cases t)
        case (Rejected e)
        with None i show ?thesis by (simp add: set_update_memI)
      next
        case Fulfilled
        with None no show ?thesis
          by (auto dest!: set_update_subset_insert [THEN subsetD])
      next
        case (Waiting u' k')
        with None no show ?thesis
          by (auto dest!: set_update_subset_insert [THEN subsetD])
      qed
    next
      case (Some e)
      with ok have "Rejected e \<in> set (tasks y)" by (simp add: tasks_ok_def)
      then obtain j where j: "j < length (tasks y)" "tasks y ! j = Rejected e"
        by (auto simp add: in_set_conv_nth)
      with Waiting have "j \<noteq> i" by auto
      with j have "(tasks y)[i := t] ! j = Rejected e" by simp
      with j(1) have "Rejected e \<in> set ((tasks y)[i := t])"
        by (metis length_list_update nth_mem)
      with Some show ?thesis by simp
    qed
    from ok have "length (items (shared y)) = length (filter is_Fulfilled (tasks y))"
      by (simp add: tasks_ok_def)
    with all cnt len rej show ?thesis
      by (simp add: d tasks_ok_def split: option.splits)
  next
    case Fulfilled
    with ok i show ?thesis by (simp add: deliver_def)
  next
    case (Rejected e)
    with ok i show ?thesis by (simp add: deliver_def)
  qed
qed

lemma foldl_deliver_ok:
  "tasks_ok y \<Longrightarrow> tasks_ok (foldl deliver y sched)
     \<and> length (tasks (foldl deliver y sched)) = length (tasks y)"
proof (induction sched arbitrary: y)
  case Nil
  then show ?case by simp
next
  case (Cons a sched)
  obtain i r where a: "a = (i, r)" by (cases a)
  from deliver_ok [OF Cons.prems, of i r] Cons.IH [of "deliver y (i, r)"] a
  show ?case by simp
qed

lemma run_ok:
  "tasks_ok (run cfg sched dir initial)
   \<and> length (tasks (run cfg sched dir initial)) = length (filter (\<lambda>(name, loaded). is_yml name) dir)"
proof -
  let ?paths = "filter (\<lambda>(name, loaded). is_yml name) dir"
  let ?init = "\<lparr>tasks = [], shared = \<lparr>cache = initial, items = [], trace = []\<rparr>, rejected = None\<rparr>"
  have init: "tasks_ok ?init" by (simp add: tasks_ok_def)
  have ps: "list_all pushes_last (map (\<lambda>(name, loaded). task cfg name loaded) ?paths)"
    by (simp add: list_all_iff pushes_last_task split_def)
  from start_all_ok [OF init ps] foldl_deliver_ok show ?thesis
    by (simp add: run_def Let_def)
qed

lemma paths_ex:
  "filter (\<lambda>(name, loaded). is_yml name) dir_ex = [(''ag-grid.yml'', Inr doc_ex), (''plain.yml'', Inr doc_plain)]"
  by code_simp

text \<open>
  C10. Whatever the fetcher answers and in whatever order: when every callback is
  fulfilled, \<^verbatim>\<open>items\<close> holds as many records as there are paths, since each callback
  pushes exactly once; and \<open>getLibraries\<close> never fails with the error of line 233.
\<close>

theorem never_incomplete:
  "(list_all is_Fulfilled (tasks (run cfg sched dir initial)) \<longrightarrow>
      length (items (shared (run cfg sched dir initial)))
        = length (filter (\<lambda>(name, loaded). is_yml name) dir))
   \<and> getLibraries cfg sched dir initial \<noteq> Some (Inl (IncompleteData n m))"
proof -
  let ?y = "run cfg sched dir initial"
  from run_ok [of cfg sched dir initial] have ok: "tasks_ok ?y"
    and len: "length (tasks ?y) = length (filter (\<lambda>(name, loaded). is_yml name) dir)" by simp_all
  have a: "list_all is_Fulfilled (tasks ?y) \<longrightarrow>
      length (items (shared ?y)) = length (filter (\<lambda>(name, loaded). is_yml name) dir)"
  proof
    assume "list_all is_Fulfilled (tasks ?y)"
    then have "filter is_Fulfilled (tasks ?y) = tasks ?y" by (simp add: list_all_iff)
    with ok len show "length (items (shared ?y)) = length (filter (\<lambda>(name, loaded). is_yml name) dir)"
      by (simp add: tasks_ok_def)
  qed
  have b: "getLibraries cfg sched dir initial \<noteq> Some (Inl (IncompleteData n m))"
  proof (cases "rejected ?y")
    case None
    with a show ?thesis by (auto simp add: getLibraries_def outcome_def)
  next
    case (Some e)
    with ok have "Rejected e \<in> set (tasks ?y)" by (simp add: tasks_ok_def)
    with ok have "status_ok (Rejected e)" unfolding tasks_ok_def by blast
    with Some show ?thesis by (auto simp add: getLibraries_def outcome_def)
  qed
  from a b show ?thesis by simp
qed

theorem never_incomplete_witness:
  "list_all is_Fulfilled (tasks (run cfg_ex [] dir_ex cache_ex))
   \<and> length (items (shared (run cfg_ex [] dir_ex cache_ex))) = 2
   \<and> getLibraries cfg_ex [] dir_ex cache_ex \<noteq> Some (Inl (IncompleteData 2 1))"
proof -
  have "list_all is_Fulfilled (tasks (run cfg_ex [] dir_ex cache_ex))"
    by code_simp
  with never_incomplete [of cfg_ex "[]" dir_ex cache_ex 2 1] show ?thesis
    by (simp add: paths_ex)
qed

subsection \<open>A failing repository request\<close>

lemma run_sync_keeps_cache:
  "sets_after_await p \<Longrightarrow> cache (snd (run_sync p s)) = cache s"
proof (induction p arbitrary: s)
  case (CacheGet key k)
  from CacheGet.prems have "sets_after_await (k (cache_get (cache s) key))" by simp
  from CacheGet.IH [OF rangeI this, of "s\<lparr>trace := trace s @ [Get key]\<rparr>"]
  show ?case by simp
next
  case (Push v p)
  from Push.IH [of "s\<lparr>items := items s @ [v], trace := trace s @ [Pushed v]\<rparr>"] Push.prems
  show ?case by simp
qed auto

lemma sets_after_await_github_stats:
  "(\<And>stats. sets_after_await (k stats)) \<Longrightarrow> sets_after_await (github_stats sn js_id repo k)"
  by (auto simp add: github_stats_def Let_def)

lemma sets_after_await_github:
  "(\<And>it. sets_after_await (k it)) \<Longrightarrow> sets_after_await (github sn js_id item k)"
  by (auto simp add: github_def Let_def split: sum.splits intro!: sets_after_await_github_stats)

lemma sets_after_await_npm:
  "(\<And>it. sets_after_await (k it)) \<Longrightarrow> sets_after_await (npm item k)"
  by (auto simp add: npm_def Let_def)

lemma sets_after_await_bundlephobia:
  "(\<And>it. sets_after_await (k it)) \<Longrightarrow> sets_after_await (bundlephobia item k)"
  by (auto simp add: bundlephobia_def Let_def)

lemma sets_after_await_task: "sets_after_await (task cfg name loaded)"
  by (auto simp add: task_def Let_def split: sum.splits
      intro!: sets_after_await_github sets_after_await_npm sets_after_await_bundlephobia)

lemma start_all_length: "length (tasks (start_all ps y)) = length (tasks y) + length ps"
  by (induction ps arbitrary: y) (auto split: prod.splits)

lemma start_all_keeps_cache:
  "list_all sets_after_await ps \<Longrightarrow> cache (shared (start_all ps y)) = cache (shared y)"
proof (induction ps arbitrary: y)
  case Nil
  then show ?case by simp
next
  case (Cons p ps)
  obtain t s' where r: "run_sync p (shared y) = (t, s')" by (cases "run_sync p (shared y)")
  from Cons.prems have p: "sets_after_await p" and ps: "list_all sets_after_await ps" by simp_all
  from run_sync_keeps_cache [OF p, of "shared y"] r have "cache s' = cache (shared y)" by simp
  with Cons.IH [OF ps, of "\<lparr>tasks = tasks y @ [t], shared = s', rejected = settle t (rejected y)\<rparr>"] r
  show ?case by simp
qed

lemma start_all_old:
  "j < length (tasks y) \<Longrightarrow> tasks (start_all ps y) ! j = tasks y ! j"
proof (induction ps arbitrary: y)
  case Nil
  then show ?case by simp
next
  case (Cons p ps)
  obtain t s' where r: "run_sync p (shared y) = (t, s')" by (cases "run_sync p (shared y)")
  from Cons.IH [of "\<lparr>tasks = tasks y @ [t], shared = s', rejected = settle t (rejected y)\<rparr>"] Cons.prems r
  show ?case by (simp add: nth_append)
qed

lemma start_all_nth:
  "list_all sets_after_await ps \<Longrightarrow> i < length ps \<Longrightarrow>
     \<exists>s. cache s = cache (shared y)
       \<and> tasks (start_all ps y) ! (length (tasks y) + i) = fst (run_sync (ps ! i) s)"
proof (induction ps arbitrary: y i)
  case Nil
  then show ?case by simp
next
  case (Cons p ps)
  obtain t s' where r: "run_sync p (shared y) = (t, s')" by (cases "run_sync p (shared y)")
  let ?y = "\<lparr>tasks = tasks y @ [t], shared = s', rejected = settle t (rejected y)\<rparr>"
  from Cons.prems have p: "sets_after_await p" and ps: "list_all sets_after_await ps" by simp_all
  from run_sync_keeps_cache [OF p, of "shared y"] r have c: "cache s' = cache (shared y)" by simp
  show ?case
  proof (cases i)
    case 0
    from start_all_old [of "length (tasks y)" ?y ps] r 0
    have "tasks (start_all (p # ps) y) ! (length (tasks y) + i) = fst (run_sync ((p # ps) ! i) (shared y))"
      by simp
    then show ?thesis by blast
  next
    case (Suc i')
    with Cons.prems have "i' < length ps" by simp
    from Cons.IH [OF ps this, of ?y] c r Suc show ?thesis by simp
  qed
qed

lemma task_waits_for_repo:
  assumes valid: "validateSync (yup cfg) (yamlSchema (Features cfg)) obj = Inr checked"
    and item: "validateSync (yup cfg) (libraryInfoSchema (Features cfg)) (with_id (basename_yml name) obj) = Inr item"
    and repo: "truthy (sibling item ''githubRepo'')"
    and miss: "\<not> truthy (cache_get (cache s) (info_key (sibling item ''githubRepo'')))"
  shows "\<exists>k. fst (run_sync (task cfg name (Inr obj)) s) = Waiting (repo_url (sibling item ''githubRepo'')) k
           \<and> (\<forall>err. k (Inl err) = Throw (GitHubDataError (basename_yml name) err))"
  using assms by (simp add: task_def github_def Let_def)

lemma deliver_other:
  "j \<noteq> i \<Longrightarrow> i < length (tasks y) \<Longrightarrow> tasks (deliver y (j, r)) ! i = tasks y ! i"
  by (auto simp add: deliver_def split: status.splits prod.splits)

lemma deliver_length: "length (tasks (deliver y a)) = length (tasks y)"
  by (auto simp add: deliver_def split: status.splits prod.splits)

lemma deliver_rejected_stays:
  "i < length (tasks y) \<Longrightarrow> tasks y ! i = Rejected e \<Longrightarrow> tasks (deliver y a) ! i = Rejected e"
  by (cases a; cases "fst a = i") (auto simp add: deliver_def split: status.splits prod.splits)

lemma deliver_throws:
  "i < length (tasks y) \<Longrightarrow> tasks y ! i = Waiting url k \<Longrightarrow> k r = Throw e \<Longrightarrow>
     tasks (deliver y (i, r)) ! i = Rejected e"
  by (simp add: deliver_def)

lemma foldl_deliver_length: "length (tasks (foldl deliver y sched)) = length (tasks y)"
  by (induction sched arbitrary: y) (simp_all add: deliver_length)

lemma foldl_rejected_stays:
  "i < length (tasks y) \<Longrightarrow> tasks y ! i = Rejected e \<Longrightarrow>
     tasks (foldl deliver y sched) ! i = Rejected e"
proof (induction sched arbitrary: y)
  case Nil
  then show ?case by simp
next
  case (Cons a sched)
  from deliver_rejected_stays [OF Cons.prems, of a] Cons.prems(1)
  show ?case by (simp add: Cons.IH deliver_length)
qed

lemma foldl_delivers_rejection:
  "i < length (tasks y) \<Longrightarrow> tasks y ! i = Waiting url k \<Longrightarrow> k r = Throw e \<Longrightarrow>
     find (\<lambda>a. fst a = i) sched = Some (i, r) \<Longrightarrow>
     tasks (foldl deliver y sched) ! i = Rejected e"
proof (induction sched arbitrary: y)
  case Nil
  then show ?case by simp
next
  case (Cons a sched)
  obtain j r' where a: "a = (j, r')" by (cases a)
  show ?case
  proof (cases "j = i")
    case True
    with Cons.prems(4) a have "r' = r" by simp
    with Cons.prems(1,2,3) have "tasks (deliver y (i, r')) ! i = Rejected e"
      by (simp add: deliver_throws)
    with Cons.prems(1) True a show ?thesis
      by (simp add: foldl_rejected_stays deliver_length)
  next
    case False
    with Cons.prems(4) a have "find (\<lambda>a. fst a = i) sched = Some (i, r)" by simp
    moreover from deliver_other [OF False Cons.prems(1)] Cons.prems(2)
    have "tasks (deliver y (j, r')) ! i = Waiting url k" by simp
    ultimately show ?thesis
      using Cons.IH [of "deliver y (j, r')"] Cons.prems(1,3) a by (simp add: deliver_length)
  qed
qed

text \<open>
  C8. In a run over any directory: if the document at path \<open>i\<close> validates to a record
  with a repository, the cache has no usable metadata entry for it, and the first answer
  that arrives for it is a rejection of its metadata request, then callback \<open>i\<close> is rejected with the
  error of line 132, which carries the record's id and tells the GitHub request from the
  others, and \<open>getLibraries\<close> fails: with that error, or with the error of another
  callback that was rejected.
\<close>

theorem repo_fetch_failure_aborts_run:
  assumes path: "i < length (filter (\<lambda>(name, loaded). is_yml name) dir)"
      "filter (\<lambda>(name, loaded). is_yml name) dir ! i = (name, Inr obj)"
    and valid: "validateSync (yup cfg) (yamlSchema (Features cfg)) obj = Inr checked"
    and item: "validateSync (yup cfg) (libraryInfoSchema (Features cfg)) (with_id (basename_yml name) obj) = Inr item"
    and repo: "truthy (sibling item ''githubRepo'')"
    and miss: "\<not> truthy (cache_get initial (info_key (sibling item ''githubRepo'')))"
    and answered: "find (\<lambda>a. fst a = i) sched = Some (i, Inl err)"
  shows "tasks (run cfg sched dir initial) ! i = Rejected (GitHubDataError (basename_yml name) err)
     \<and> (\<exists>e. getLibraries cfg sched dir initial = Some (Inl e)
            \<and> (e = GitHubDataError (basename_yml name) err
                \<or> (\<exists>j. j \<noteq> i \<and> j < length (filter (\<lambda>(name, loaded). is_yml name) dir)
                      \<and> tasks (run cfg sched dir initial) ! j = Rejected e)))"
proof -
  let ?paths = "filter (\<lambda>(name, loaded). is_yml name) dir"
  let ?ps = "map (\<lambda>(name, loaded). task cfg name loaded) ?paths"
  let ?init = "\<lparr>tasks = [], shared = \<lparr>cache = initial, items = [], trace = []\<rparr>, rejected = None\<rparr>"
  let ?started = "start_all ?ps ?init"
  let ?final = "run cfg sched dir initial"
  let ?E = "GitHubDataError (basename_yml name) err"
  have run: "?final = foldl deliver ?started sched" by (simp add: run_def Let_def)
  have all: "list_all sets_after_await ?ps"
    by (simp add: list_all_iff sets_after_await_task split_def)
  from path have i: "i < length ?ps" and pi: "?ps ! i = task cfg name (Inr obj)" by simp_all
  from start_all_nth [OF all i, where y = ?init] pi obtain s where
    s: "cache s = initial" "tasks ?started ! i = fst (run_sync (task cfg name (Inr obj)) s)" by auto
  from miss s(1) have "\<not> truthy (cache_get (cache s) (info_key (sibling item ''githubRepo'')))" by simp
  from task_waits_for_repo [OF valid item repo this] s(2) obtain k where
    k: "tasks ?started ! i = Waiting (repo_url (sibling item ''githubRepo'')) k"
       "k (Inl err) = Throw ?E" by auto
  have len1: "length (tasks ?started) = length ?paths" by (simp add: start_all_length)
  with path have i1: "i < length (tasks ?started)" by simp
  from k(2) have "k (Inl err) = Throw ?E" by simp
  with i1 k(1) have "tasks (foldl deliver ?started sched) ! i = Rejected ?E"
    using answered by (rule foldl_delivers_rejection)
  with run have rej: "tasks ?final ! i = Rejected ?E" by simp
  from run_ok [of cfg sched dir initial] have ok: "tasks_ok ?final"
    and len: "length (tasks ?final) = length ?paths" by simp_all
  from rej path(1) len have mem: "Rejected ?E \<in> set (tasks ?final)"
    by (metis nth_mem)
  have "\<exists>e. rejected ?final = Some e \<and> Rejected e \<in> set (tasks ?final)"
  proof (cases "rejected ?final")
    case None
    with ok have "\<forall>t \<in> set (tasks ?final). \<not> is_Rejected t" by (simp add: tasks_ok_def)
    with mem show ?thesis by auto
  next
    case (Some e)
    with ok show ?thesis by (simp add: tasks_ok_def)
  qed
  then obtain e where e: "rejected ?final = Some e" "Rejected e \<in> set (tasks ?final)" by blast
  from e(2) obtain j where j: "j < length (tasks ?final)" "tasks ?final ! j = Rejected e"
    by (auto simp add: in_set_conv_nth)
  have out: "getLibraries cfg sched dir initial = Some (Inl e)"
    using e(1) by (simp add: getLibraries_def outcome_def)
  have "e = ?E \<or> (\<exists>j. j \<noteq> i \<and> j < length ?paths \<and> tasks ?final ! j = Rejected e)"
  proof (cases "j = i")
    case True
    with j rej show ?thesis by simp
  next
    case False
    with j len show ?thesis by auto
  qed
  with out rej show ?thesis by blast
qed

theorem repo_fetch_failure_aborts_run_witness:
  "tasks (run cfg_ex [(0, Inl (FetchError ''Not Found'' (Some 404)))] dir_ex no_cache) ! 0
     = Rejected (GitHubDataError ''ag-grid'' (FetchError ''Not Found'' (Some 404)))
   \<and> getLibraries cfg_ex [(0, Inl (FetchError ''Not Found'' (Some 404)))] dir_ex no_cache
     = Some (Inl (GitHubDataError ''ag-grid'' (FetchError ''Not Found'' (Some 404))))"
proof -
  have repo: "sibling item_ex ''githubRepo'' = JStr ''ag-grid/ag-grid''"
    by code_simp
  have t: "truthy (sibling item_ex ''githubRepo'')"
    by (simp add: repo)
  have miss: "\<not> truthy (cache_get no_cache (info_key (sibling item_ex ''githubRepo'')))"
    by (simp add: no_cache_def cache_get_def)
  have answered: "find (\<lambda>a. fst a = 0) [(0::nat, Inl (FetchError ''Not Found'' (Some 404)) :: error + response)]
      = Some (0, Inl (FetchError ''Not Found'' (Some 404)))"
    by simp
  have base: "basename_yml ''ag-grid.yml'' = ''ag-grid''"
    by (simp add: basename_yml_def)
  have other: "is_Fulfilled (tasks (run cfg_ex [(0, Inl (FetchError ''Not Found'' (Some 404)))] dir_ex no_cache) ! 1)"
    by code_simp
  have "0 < length (filter (\<lambda>(name, loaded). is_yml name) dir_ex)"
    and "filter (\<lambda>(name, loaded). is_yml name) dir_ex ! 0 = (''ag-grid.yml'', Inr doc_ex)"
    by (simp_all add: paths_ex)
  with doc_ex_valid doc_ex_item t miss answered other
    repo_fetch_failure_aborts_run [where i = 0 and dir = dir_ex and name = "''ag-grid.yml''"
      and obj = doc_ex and cfg = cfg_ex and checked = doc_ex and item = item_ex
      and initial = no_cache and err = "FetchError ''Not Found'' (Some 404)"
      and sched = "[(0, Inl (FetchError ''Not Found'' (Some 404)))]"]
  show ?thesis
    by (auto simp add: base paths_ex less_Suc_eq)
qed

subsection \<open>Runs on a warm cache\<close>

lemma task_settles:
  assumes "warm_file cfg (cache s) (name, loaded)"
  shows "\<not> is_Waiting (fst (run_sync (task cfg name loaded) s))"
proof (cases loaded)
  case (Inl msg)
  then show ?thesis by (simp add: task_def)
next
  case (Inr obj)
  show ?thesis
  proof (cases "validateSync (yup cfg) (yamlSchema (Features cfg)) obj")
    case (Inl e)
    with Inr show ?thesis by (simp add: task_def)
  next
    case valid: (Inr checked)
    show ?thesis
    proof (cases "validateSync (yup cfg) (libraryInfoSchema (Features cfg)) (with_id (basename_yml name) obj)")
      case (Inl e)
      with Inr valid show ?thesis by (simp add: task_def)
    next
      case item: (Inr item)
      with assms Inr valid have "warm (cache s) item" by (simp add: warm_file_def)
      from task_cached [OF valid item this] Inr show ?thesis
        by (simp split: sum.splits)
    qed
  qed
qed

lemma start_all_settles:
  assumes "list_all (warm_file cfg c) paths" and "cache (shared y) = c"
    and "list_all (\<lambda>t. \<not> is_Waiting t) (tasks y)"
  shows "list_all (\<lambda>t. \<not> is_Waiting t)
           (tasks (start_all (map (\<lambda>(name, loaded). task cfg name loaded) paths) y))"
  using assms
proof (induction paths arbitrary: y)
  case Nil
  then show ?case by simp
next
  case (Cons a paths)
  obtain name loaded where a: "a = (name, loaded)" by (cases a)
  obtain t s' where r: "run_sync (task cfg name loaded) (shared y) = (t, s')"
    by (cases "run_sync (task cfg name loaded) (shared y)")
  from Cons.prems a have "warm_file cfg (cache (shared y)) (name, loaded)" by simp
  from task_settles [OF this] r have t: "\<not> is_Waiting t" by simp
  from run_sync_keeps_cache [OF sets_after_await_task, of cfg name loaded "shared y"] r Cons.prems(2)
  have c: "cache s' = c" by simp
  from Cons.prems t have "list_all (\<lambda>t. \<not> is_Waiting t) (tasks y @ [t])" by simp
  with Cons.IH [of "\<lparr>tasks = tasks y @ [t], shared = s', rejected = settle t (rejected y)\<rparr>"]
    Cons.prems(1) c a r
  show ?case by simp
qed

lemma deliver_settled:
  "list_all (\<lambda>t. \<not> is_Waiting t) (tasks y) \<Longrightarrow> deliver y a = y"
  by (auto simp add: deliver_def list_all_length split: status.splits prod.splits)

lemma foldl_deliver_settled:
  "list_all (\<lambda>t. \<not> is_Waiting t) (tasks y) \<Longrightarrow> foldl deliver y sched = y"
  by (induction sched) (simp_all add: deliver_settled)

lemma warm_run:
  assumes "warm_dir cfg initial dir"
  shows "run cfg sched dir initial =
           start_all (map (\<lambda>(name, loaded). task cfg name loaded) (filter (\<lambda>(name, loaded). is_yml name) dir))
             \<lparr>tasks = [], shared = \<lparr>cache = initial, items = [], trace = []\<rparr>, rejected = None\<rparr>"
    and "list_all (\<lambda>t. \<not> is_Waiting t) (tasks (run cfg sched dir initial))"
proof -
  let ?init = "\<lparr>tasks = [], shared = \<lparr>cache = initial, items = [], trace = []\<rparr>, rejected = None\<rparr>"
  let ?started = "start_all (map (\<lambda>(name, loaded). task cfg name loaded)
                     (filter (\<lambda>(name, loaded). is_yml name) dir)) ?init"
  from assms have "list_all (warm_file cfg initial) (filter (\<lambda>(name, loaded). is_yml name) dir)"
    by (simp add: warm_dir_def)
  from start_all_settles [OF this, of ?init]
  have settled: "list_all (\<lambda>t. \<not> is_Waiting t) (tasks ?started)" by simp
  from foldl_deliver_settled [OF settled]
  show a: "run cfg sched dir initial = ?started" by (simp add: run_def Let_def)
  from settled a show "list_all (\<lambda>t. \<not> is_Waiting t) (tasks (run cfg sched dir initial))" by simp
qed

lemma warm_dir_ex: "warm_dir cfg_ex cache_ex dir_ex"
  by code_simp

text \<open>
  C9. On a directory that is warm for the cache, a run leaves the cache as it found it
  and settles without any answer of the fetcher; a second run on the same directory and
  the cache the first one left, whatever the fetcher does then,
  gives the same result: the same records in the same order, or the same error.
\<close>

theorem warm_runs_agree:
  assumes "warm_dir cfg initial dir"
  shows "cache (shared (run cfg sched dir initial)) = initial
     \<and> getLibraries cfg sched dir initial \<noteq> None
     \<and> getLibraries cfg sched' dir (cache (shared (run cfg sched dir initial)))
         = getLibraries cfg sched dir initial"
proof -
  let ?final = "run cfg sched dir initial"
  have all: "list_all sets_after_await
      (map (\<lambda>(name, loaded). task cfg name loaded) (filter (\<lambda>(name, loaded). is_yml name) dir))"
    by (simp add: list_all_iff sets_after_await_task split_def)
  from warm_run(1) [OF assms, of sched] start_all_keeps_cache [OF all]
  have cache: "cache (shared ?final) = initial" by simp
  from warm_run(1) [OF assms, of sched] warm_run(1) [OF assms, of sched']
  have same: "run cfg sched' dir initial = ?final" by simp
  from run_ok [of cfg sched dir initial] have ok: "tasks_ok ?final" by simp
  have settled: "getLibraries cfg sched dir initial \<noteq> None"
  proof (cases "rejected ?final")
    case (Some e)
    then show ?thesis by (simp add: getLibraries_def outcome_def)
  next
    case None
    with ok have no: "\<forall>t \<in> set (tasks ?final). \<not> is_Rejected t" by (simp add: tasks_ok_def)
    have "list_all is_Fulfilled (tasks ?final)"
      unfolding list_all_iff
    proof
      fix t assume t: "t \<in> set (tasks ?final)"
      with no have "\<not> is_Rejected t" by simp
      moreover from warm_run(2) [OF assms, of sched] t have "\<not> is_Waiting t"
        by (simp add: list_all_iff)
      ultimately show "is_Fulfilled t" by (cases t) simp_all
    qed
    with None show ?thesis by (simp add: getLibraries_def outcome_def)
  qed
  from cache same settled show ?thesis by (simp add: getLibraries_def)
qed

theorem warm_runs_agree_witness:
  "cache (shared (run cfg_ex [] dir_ex cache_ex)) = cache_ex
   \<and> getLibraries cfg_ex [] dir_ex cache_ex \<noteq> None
   \<and> getLibraries cfg_ex [(1, Inl (FetchError ''Not Found'' (Some 404))), (0, Inl TypeError)] dir_ex
         (cache (shared (run cfg_ex [] dir_ex cache_ex)))
       = getLibraries cfg_ex [] dir_ex cache_ex"
  using warm_runs_agree [OF warm_dir_ex] by blast

subsection \<open>What validation does to a block\<close>

lemma get_key_absent: "k \<notin> fst ` set kvs \<Longrightarrow> get_key kvs k = JUndefined"
  by (induction kvs) (auto simp add: get_key_def)

lemma get_key_append:
  "get_key (a @ b) k = (if k \<in> fst ` set a then get_key a k else get_key b k)"
  by (induction a) (auto simp add: get_key_def)

lemma get_key_copies:
  "get_key (map (\<lambda>k. (k, f k)) ks) k = (if k \<in> set ks then f k else JUndefined)"
  by (induction ks) (auto simp add: get_key_def)

lemma cast_fields_grows:
  "cast_fields L flds kvs built = Inr built' \<Longrightarrow>
     \<exists>more. built' = built @ more \<and> fst ` set more \<subseteq> fst ` set flds"
proof (induction flds arbitrary: built')
  case Nil
  then show ?case by simp
next
  case (Cons a flds)
  obtain k s where a: "a = (k, s)" by (cases a)
  from Cons.prems a obtain b v where rest: "cast_fields L flds kvs built = Inr b"
    and v: "cast L s (JObj b) (get_key kvs k) = Inr v"
    and r: "built' = (if v \<noteq> JUndefined then b @ [(k, v)] else b)"
    by (auto split: sum.splits)
  from Cons.IH [OF rest] obtain more where
    more: "b = built @ more" "fst ` set more \<subseteq> fst ` set flds" by blast
  show ?case
  proof (cases "v = JUndefined")
    case True
    with more a r show ?thesis by auto
  next
    case False
    with more a r have "built' = built @ (more @ [(k, v)])
        \<and> fst ` set (more @ [(k, v)]) \<subseteq> fst ` set (a # flds)"
      by auto
    then show ?thesis by blast
  qed
qed

lemma cast_fields_field_parent:
  assumes "cast_fields L flds kvs built = Inr built'"
    and "distinct (map fst flds)" and "(k, sch) \<in> set flds" and "k \<notin> fst ` set built"
  shows "\<exists>b. (\<forall>d. d \<notin> fst ` set flds \<longrightarrow> get_key b d = get_key built d)
           \<and> cast L sch (JObj b) (get_key kvs k) = Inr (get_key built' k)"
  using assms
proof (induction flds arbitrary: built')
  case Nil
  then show ?case by simp
next
  case (Cons a flds)
  obtain k' s where a: "a = (k', s)" by (cases a)
  from Cons.prems(1) a obtain b v where rest: "cast_fields L flds kvs built = Inr b"
    and v: "cast L s (JObj b) (get_key kvs k') = Inr v"
    and r: "built' = (if v \<noteq> JUndefined then b @ [(k', v)] else b)"
    by (auto split: sum.splits)
  from cast_fields_grows [OF rest] obtain more where
    more: "b = built @ more" "fst ` set more \<subseteq> fst ` set flds" by blast
  show ?case
  proof (cases "k' = k")
    case True
    with Cons.prems(2,3) a have s: "s = sch" by (auto simp add: rev_image_eqI)
    from Cons.prems(2) a True have notin: "k \<notin> fst ` set flds" by auto
    with more(2) have km: "k \<notin> fst ` set more" by auto
    with more(1) Cons.prems(4) have kb: "k \<notin> fst ` set b" by auto
    have "get_key built' k = v"
    proof (cases "v = JUndefined")
      case True
      with r kb show ?thesis by (simp add: get_key_absent)
    next
      case False
      with r kb \<open>k' = k\<close> show ?thesis
        by (simp add: get_key_append) (simp add: get_key_def)
    qed
    moreover have "\<forall>d. d \<notin> fst ` set (a # flds) \<longrightarrow> get_key b d = get_key built d"
    proof (intro allI impI)
      fix d assume "d \<notin> fst ` set (a # flds)"
      with more(2) have "d \<notin> fst ` set more" by auto
      with more(1) show "get_key b d = get_key built d"
        by (simp add: get_key_append get_key_absent)
    qed
    ultimately show ?thesis using v s True by auto
  next
    case False
    with Cons.prems a have "(k, sch) \<in> set flds" "distinct (map fst flds)" by auto
    from Cons.IH [OF rest this(2) this(1) Cons.prems(4)] obtain b0 where
      b0: "\<forall>d. d \<notin> fst ` set flds \<longrightarrow> get_key b0 d = get_key built d"
          "cast L sch (JObj b0) (get_key kvs k) = Inr (get_key b k)" by blast
    have "get_key built' k = get_key b k"
    proof (cases "v = JUndefined")
      case True
      with r show ?thesis by simp
    next
      case defined: False
      from False have "get_key [(k', v)] k = JUndefined" by (simp add: get_key_def)
      with r defined show ?thesis
        by (cases "k \<in> fst ` set b") (simp_all add: get_key_append get_key_absent)
    qed
    with b0 show ?thesis by auto
  qed
qed

lemma cast_fields_field:
  assumes "cast_fields L flds kvs built = Inr built'"
    and "distinct (map fst flds)" and "(k, sch) \<in> set flds" and "k \<notin> fst ` set built"
  shows "\<exists>b. cast L sch (JObj b) (get_key kvs k) = Inr (get_key built' k)"
  using cast_fields_field_parent [OF assms] by blast

lemma object_transform_object: "object_transform L (JObj kvs) = JObj kvs"
  by (simp add: object_transform_def)

lemma cast_object_result:
  assumes "cast L (Object_schema flds) p (JObj kvs) = Inr r"
  shows "\<exists>built1. cast_fields L flds kvs
            (map (\<lambda>k. (k, get_key kvs k))
               (filter (\<lambda>k. k \<in> set (map fst kvs)) (filter (\<lambda>k. k \<notin> set (map fst flds)) (nodes flds))))
           = Inr built1
         \<and> (r = JObj kvs \<or> r = JObj (built1 @ map (\<lambda>k. (k, get_key kvs k))
                                     (remdups (filter (\<lambda>k. k \<notin> set (nodes flds)) (map fst kvs)))))
         \<and> (\<forall>k \<in> set (nodes flds).
               sibling r k = get_key (built1 @ map (\<lambda>k. (k, get_key kvs k))
                                     (remdups (filter (\<lambda>k. k \<notin> set (nodes flds)) (map fst kvs)))) k)"
  using assms
  by (auto simp add: object_transform_object Let_def list_ex_iff strict_neq_def
      split: sum.splits if_splits)

lemma nodes_declared: "set (map fst flds) \<subseteq> set (nodes flds)"
  by (auto simp add: nodes_def)

lemma cast_object_field:
  assumes c: "cast L (Object_schema flds) p (JObj kvs) = Inr r"
    and d: "distinct (map fst flds)" and m: "(k, sch) \<in> set flds"
  shows "\<exists>b. cast L sch (JObj b) (get_key kvs k) = Inr (sibling r k)"
proof -
  let ?built0 = "map (\<lambda>k. (k, get_key kvs k))
               (filter (\<lambda>k. k \<in> set (map fst kvs)) (filter (\<lambda>k. k \<notin> set (map fst flds)) (nodes flds)))"
  let ?copies = "map (\<lambda>k. (k, get_key kvs k)) (remdups (filter (\<lambda>k. k \<notin> set (nodes flds)) (map fst kvs)))"
  from cast_object_result [OF c] obtain built1 where
    b: "cast_fields L flds kvs ?built0 = Inr built1"
    and s: "\<forall>k \<in> set (nodes flds). sibling r k = get_key (built1 @ ?copies) k" by blast
  from m have kd: "k \<in> set (map fst flds)" by (auto simp add: rev_image_eqI)
  with nodes_declared have kn: "k \<in> set (nodes flds)" by blast
  from kd have k0: "k \<notin> fst ` set ?built0" by (auto simp add: image_iff)
  from kn have kc: "k \<notin> fst ` set ?copies" by (auto simp add: image_iff)
  from cast_fields_field [OF b d m k0] obtain b' where
    v: "cast L sch (JObj b') (get_key kvs k) = Inr (get_key built1 k)" by blast
  from s kn have "sibling r k = get_key (built1 @ ?copies) k" by simp
  also from kc have "\<dots> = get_key built1 k"
    by (simp add: get_key_append get_key_absent)
  finally show ?thesis using v by auto
qed

lemma cast_object_other:
  assumes c: "cast L (Object_schema flds) p (JObj kvs) = Inr r"
    and k: "k \<notin> set (map fst flds)"
  shows "sibling r k = get_key kvs k"
proof -
  let ?built0 = "map (\<lambda>k. (k, get_key kvs k))
               (filter (\<lambda>k. k \<in> set (map fst kvs)) (filter (\<lambda>k. k \<notin> set (map fst flds)) (nodes flds)))"
  let ?others = "remdups (filter (\<lambda>k. k \<notin> set (nodes flds)) (map fst kvs))"
  let ?copies = "map (\<lambda>k. (k, get_key kvs k)) ?others"
  from cast_object_result [OF c] obtain built1 where
    b: "cast_fields L flds kvs ?built0 = Inr built1"
    and r: "r = JObj kvs \<or> r = JObj (built1 @ ?copies)" by blast
  from cast_fields_grows [OF b] obtain more where
    more: "built1 = ?built0 @ more" "fst ` set more \<subseteq> fst ` set flds" by auto
  from more(2) k have km: "k \<notin> fst ` set more" by auto
  have "get_key (built1 @ ?copies) k = get_key kvs k"
  proof (cases "k \<in> fst ` set ?built0")
    case True
    then have "get_key (built1 @ ?copies) k = get_key ?built0 k"
      by (simp add: more(1) get_key_append)
    also have "\<dots> = get_key kvs k"
    proof -
      from True have "k \<in> set (filter (\<lambda>k. k \<in> set (map fst kvs))
                        (filter (\<lambda>k. k \<notin> set (map fst flds)) (nodes flds)))"
        by (force simp add: image_iff)
      then show ?thesis by (simp only: get_key_copies if_True)
    qed
    finally show ?thesis .
  next
    case False
    with km have "get_key (built1 @ ?copies) k = get_key ?copies k"
      by (simp add: more(1) get_key_append)
    also have "\<dots> = (if k \<in> set ?others then get_key kvs k else JUndefined)"
      by (rule get_key_copies)
    also have "\<dots> = get_key kvs k"
    proof (cases "k \<in> set (map fst kvs)")
      case present: True
      have "fst ` set ?built0 = {k \<in> set (nodes flds). k \<notin> set (map fst flds) \<and> k \<in> set (map fst kvs)}"
        by (auto simp add: image_iff) force+
      with False k present have "k \<notin> set (nodes flds)" by blast
      with present show ?thesis by simp
    next
      case absent: False
      then show ?thesis by (auto simp add: get_key_absent)
    qed
    finally show ?thesis .
  qed
  with r show ?thesis by auto
qed

lemma scalar_cast_valid:
  "scalar sch \<Longrightarrow> validate L sch p v \<Longrightarrow> cast L sch p' v = Inr v"
  by (cases sch; cases v) (simp_all add: boolean_transform_def)

lemma validate_fields_member:
  "validate_fields L flds obj \<Longrightarrow> (k, sch) \<in> set flds \<Longrightarrow> validate L sch obj (sibling obj k)"
  by (induction flds) auto

lemma scalar_defaults:
  "\<forall>(k, s) \<in> set flds. scalar s \<Longrightarrow>
     getDefaults flds = Inr (map (\<lambda>(k, s). (k, JUndefined)) (rev flds))"
proof (induction flds)
  case Nil
  then show ?case by simp
next
  case (Cons a flds)
  obtain k s where a: "a = (k, s)" by (cases a)
  with Cons.prems have "scalar s" by simp
  then have "getDefault s = Inr JUndefined" by (cases s) simp_all
  with Cons a show ?case by simp
qed

lemma get_key_all_undefined:
  "get_key (map (\<lambda>(k, s). (k, JUndefined)) flds) k = JUndefined"
  by (induction flds) (auto simp add: get_key_def)

lemma scalar_nodes: "\<forall>(k, s) \<in> set flds. scalar s \<Longrightarrow> nodes flds = rev (map fst flds)"
proof -
  assume a: "\<forall>(k, s) \<in> set flds. scalar s"
  have "\<And>k s. (k, s) \<in> set flds \<Longrightarrow> deps s = []"
  proof -
    fix k s assume "(k, s) \<in> set flds"
    with a have "scalar s" by auto
    then show "deps s = []" by (cases s) simp_all
  qed
  then have "concat (map (\<lambda>(k, s). deps s) flds) = []" by auto
  then show ?thesis by (simp add: nodes_def)
qed

lemma block_recast:
  assumes sc: "\<forall>(k, s) \<in> set flds. scalar s" and d: "distinct (map fst flds)"
    and v: "validate L (Object_schema flds) p v"
    and c: "cast L (Object_schema flds) p' v = Inr r"
  shows "sibling r k = sibling v k"
proof (cases v)
  case JUndefined
  with c scalar_defaults [OF sc] scalar_nodes [OF sc]
  have "r = JUndefined \<or> r = JObj (map (\<lambda>(k, s). (k, JUndefined)) (rev flds))"
    by (auto split: if_splits)
  with JUndefined show ?thesis by (auto simp add: get_key_all_undefined)
next
  case (JObj kvs)
  show ?thesis
  proof (cases "k \<in> set (map fst flds)")
    case True
    then obtain sch where m: "(k, sch) \<in> set flds" by auto
    with sc have s: "scalar sch" by auto
    from v JObj m have "validate L sch (JObj kvs) (get_key kvs k)"
      by (auto dest: validate_fields_member)
    from scalar_cast_valid [OF s this] cast_object_field [OF c [unfolded JObj] d m] JObj
    show ?thesis by auto
  next
    case False
    from cast_object_other [OF c [unfolded JObj] False] JObj show ?thesis by simp
  qed
qed (use v in simp_all)

lemma libraryInfoSchema_fields: "libraryInfoSchema Fs = Object_schema (library_fields Fs)"
  by (simp add: libraryInfoSchema_def yamlSchema_def library_fields_def github_fields_def
      npm_fields_def bundlephobia_fields_def)

lemma library_fields_distinct: "distinct (map fst (library_fields Fs))"
  by (simp add: library_fields_def)

lemma cast_object_is_object:
  "cast L (Object_schema flds) p (JObj kvs) = Inr r \<Longrightarrow> is_object r"
  using cast_object_result [of L flds p kvs r] by auto

lemma validateSync_parts:
  "validateSync L s v = Inr r \<Longrightarrow> cast L s JUndefined v = Inr r \<and> validate L s JUndefined r"
  by (auto simp add: validateSync_def split: sum.splits if_splits)

lemma block_kept:
  assumes blk: "(blk, Object_schema bflds) \<in> set (library_fields Fs)"
    and sc: "\<forall>(k, s) \<in> set bflds. scalar s" and d: "distinct (map fst bflds)"
    and ok: "validate L (Object_schema bflds) p (sibling item blk)"
    and obj: "is_object item"
    and rec: "validateSync L (libraryInfoSchema Fs) item = Inr record"
  shows "sibling (sibling record blk) k = sibling (sibling item blk) k"
proof -
  from obj obtain kvs where item: "item = JObj kvs" by (cases item) simp_all
  from validateSync_parts [OF rec] have c: "cast L (Object_schema (library_fields Fs)) JUndefined (JObj kvs) = Inr record"
    by (simp add: libraryInfoSchema_fields item)
  from cast_object_field [OF c library_fields_distinct blk] obtain b where
    "cast L (Object_schema bflds) (JObj b) (get_key kvs blk) = Inr (sibling record blk)" by blast
  with item have "cast L (Object_schema bflds) (JObj b) (sibling item blk) = Inr (sibling record blk)" by simp
  from block_recast [OF sc d ok this] show ?thesis .
qed

lemma validated_block:
  assumes blk: "(blk, Object_schema bflds) \<in> set (library_fields Fs)"
    and v: "validateSync L (libraryInfoSchema Fs) (JObj kvs) = Inr item"
  shows "is_object item \<and> validate L (Object_schema bflds) item (sibling item blk)"
proof -
  from validateSync_parts [OF v] have c: "cast L (Object_schema (library_fields Fs)) JUndefined (JObj kvs) = Inr item"
    and ok: "validate L (Object_schema (library_fields Fs)) JUndefined item"
    by (simp_all add: libraryInfoSchema_fields)
  from cast_object_is_object [OF c] have o: "is_object item" .
  then obtain kvs' where item: "item = JObj kvs'" by (cases item) simp_all
  from ok item have "validate_fields L (library_fields Fs) item" by simp
  from validate_fields_member [OF this blk] o show ?thesis by simp
qed

lemma exec_only_events:
  "only_events P p \<Longrightarrow> \<exists>evs. trace (snd (exec fetch p s)) = trace s @ evs \<and> list_all P evs"
proof (induction p arbitrary: s)
  case (Await url k)
  from Await.prems have "only_events P (k (fetch url))" by simp
  from Await.IH [OF rangeI this, of "s\<lparr>trace := trace s @ [Fetch url]\<rparr>"] obtain evs where
    "trace (snd (exec fetch (k (fetch url)) (s\<lparr>trace := trace s @ [Fetch url]\<rparr>))) = trace s @ Fetch url # evs"
    "list_all P evs" by auto
  with Await.prems show ?case by (intro exI [of _ "Fetch url # evs"]) simp
next
  case (CacheGet key k)
  from CacheGet.prems have "only_events P (k (cache_get (cache s) key))" by simp
  from CacheGet.IH [OF rangeI this, of "s\<lparr>trace := trace s @ [Get key]\<rparr>"] obtain evs where
    "trace (snd (exec fetch (k (cache_get (cache s) key)) (s\<lparr>trace := trace s @ [Get key]\<rparr>))) = trace s @ Get key # evs"
    "list_all P evs" by auto
  with CacheGet.prems show ?case by (intro exI [of _ "Get key # evs"]) simp
next
  case (CacheSet key v p)
  from CacheSet.IH [of "s\<lparr>cache := (cache s)(key \<mapsto> v), trace := trace s @ [Set key v]\<rparr>"] CacheSet.prems
  obtain evs where
    "trace (snd (exec fetch p (s\<lparr>cache := (cache s)(key \<mapsto> v), trace := trace s @ [Set key v]\<rparr>))) = trace s @ Set key v # evs"
    "list_all P evs" by auto
  with CacheSet.prems show ?case by (intro exI [of _ "Set key v # evs"]) simp
next
  case (Push v p)
  from Push.IH [of "s\<lparr>items := items s @ [v], trace := trace s @ [Pushed v]\<rparr>"] Push.prems
  obtain evs where
    "trace (snd (exec fetch p (s\<lparr>items := items s @ [v], trace := trace s @ [Pushed v]\<rparr>))) = trace s @ Pushed v # evs"
    "list_all P evs" by auto
  with Push.prems show ?case by (intro exI [of _ "Pushed v # evs"]) simp
qed simp_all

lemma derived_refl: "is_object item \<Longrightarrow> derived item item"
  by (simp add: derived_def)

lemma is_object_set_prop: "is_object item \<Longrightarrow> is_object (set_prop item k v)"
  by (cases item) simp_all

lemma derived_github: "derived item it \<Longrightarrow> derived item (set_prop it ''github'' v)"
  by (simp add: derived_def is_object_set_prop sibling_set_prop_other)

lemma derived_npm: "derived item it \<Longrightarrow> derived item (set_prop it ''npm'' v)"
  by (simp add: derived_def is_object_set_prop sibling_set_prop_other)

lemma quiet_github_stats:
  "(\<And>stats. only_events (quiet Q) (k stats)) \<Longrightarrow> only_events (quiet Q) (github_stats sn js_id repo k)"
  by (auto simp add: github_stats_def Let_def contributors_key_def contributors_url_def page_url_def
      split: sum.splits)

lemma quiet_github:
  assumes "derived item it" and "\<And>it'. derived item it' \<Longrightarrow> only_events (quiet Q) (k it')"
  shows "only_events (quiet Q) (github sn js_id it k)"
  using assms
  by (auto simp add: github_def Let_def info_key_def repo_url_def derived_github
      split: sum.splits intro!: quiet_github_stats)

lemma quiet_npm:
  assumes "derived item it" and "\<And>it'. derived item it' \<Longrightarrow> only_events (quiet Q) (k it')"
  shows "only_events (quiet Q) (npm it k)"
  using assms
  by (auto simp add: npm_def Let_def npm_key_def npm_url_def derived_npm split: sum.splits)

lemma with_id_object: "\<exists>kvs. with_id js_id obj = JObj kvs"
  by (simp add: with_id_def)

lemma bundlephobia_block: "(''bundlephobia'', Object_schema bundlephobia_fields) \<in> set (library_fields Fs)"
  by (simp add: library_fields_def)

lemma bundlephobia_fields_scalar:
  "\<forall>(k, s) \<in> set bundlephobia_fields. scalar s" "distinct (map fst bundlephobia_fields)"
  by (simp_all add: bundlephobia_fields_def)

lemma quiet_task:
  assumes valid: "validateSync (yup cfg) (yamlSchema (Features cfg)) obj = Inr checked"
    and item: "validateSync (yup cfg) (libraryInfoSchema (Features cfg)) (with_id (basename_yml name) obj) = Inr item"
    and ign: "\<not> strict_neq (sibling item ''ignoreBundlephobia'') (JBool True)"
  shows "only_events (quiet (\<lambda>record. \<forall>k. sibling (sibling record ''bundlephobia'') k
                                              = sibling (sibling item ''bundlephobia'') k))
           (task cfg name (Inr obj))"
proof -
  let ?Q = "\<lambda>record. \<forall>k. sibling (sibling record ''bundlephobia'') k = sibling (sibling item ''bundlephobia'') k"
  let ?final = "\<lambda>it. case validateSync (yup cfg) (libraryInfoSchema (Features cfg)) it of
                       Inl e \<Rightarrow> Throw e | Inr record \<Rightarrow> Push record Done"
  from with_id_object obtain kvs where w: "with_id (basename_yml name) obj = JObj kvs" by blast
  from validated_block [OF bundlephobia_block item [unfolded w]]
  have obj: "is_object item"
    and ok: "validate (yup cfg) (Object_schema bundlephobia_fields) item (sibling item ''bundlephobia'')"
    by simp_all
  have final: "only_events (quiet ?Q) (?final it)" if d: "derived item it" for it
  proof (cases "validateSync (yup cfg) (libraryInfoSchema (Features cfg)) it")
    case (Inl e)
    then show ?thesis by simp
  next
    case (Inr validated)
    from d have o: "is_object it" and same: "sibling it ''bundlephobia'' = sibling item ''bundlephobia''"
      by (simp_all add: derived_def)
    from ok same have ok': "validate (yup cfg) (Object_schema bundlephobia_fields) item (sibling it ''bundlephobia'')"
      by simp
    from block_kept [OF bundlephobia_block bundlephobia_fields_scalar ok' o Inr] same
    have "?Q validated" by simp
    with Inr show ?thesis by simp
  qed
  have skip: "only_events (quiet ?Q) (bundlephobia it ?final)" if d: "derived item it" for it
  proof -
    from d ign have "\<not> strict_neq (sibling it ''ignoreBundlephobia'') (JBool True)"
      by (simp add: derived_def)
    then have "bundlephobia it ?final = ?final it" by (simp add: bundlephobia_skipped)
    with final [OF d] show ?thesis by simp
  qed
  have n: "only_events (quiet ?Q) (npm it (\<lambda>it. bundlephobia it ?final))" if d: "derived item it" for it
    using d skip by (rule quiet_npm)
  have "only_events (quiet ?Q) (github (str_num cfg) (basename_yml name) item
          (\<lambda>it. npm it (\<lambda>it. bundlephobia it ?final)))"
    using derived_refl [OF obj] n by (rule quiet_github)
  with valid item show ?thesis by (simp add: task_def Let_def)
qed

subsection \<open>A record that opts out of bundle sizes\<close>

lemma bundlephobia_defaulted:
  assumes item: "validateSync L (libraryInfoSchema Fs) (JObj kvs) = Inr item"
    and absent: "get_key kvs ''bundlephobia'' = JUndefined"
  shows "sibling item ''bundlephobia'' = bundlephobia_default"
proof -
  from validateSync_parts [OF item]
  have c: "cast L (Object_schema (library_fields Fs)) JUndefined (JObj kvs) = Inr item"
    by (simp add: libraryInfoSchema_fields)
  from cast_object_field [OF c library_fields_distinct bundlephobia_block] obtain b where
    "cast L (Object_schema bundlephobia_fields) (JObj b) (get_key kvs ''bundlephobia'')
       = Inr (sibling item ''bundlephobia'')" by blast
  with absent show ?thesis
    by (simp add: bundlephobia_fields_def bundlephobia_default_def nodes_def)
qed

text \<open>
  C6, as the code has it. A source document that validates to a record with a package
  and \<^verbatim>\<open>ignoreBundlephobia\<close> true: whatever the fetcher answers, the callback makes no
  request to the bundle-size service and no cache access under a bundle-size key, and a
  record it pushes has, in its \<^verbatim>\<open>bundlephobia\<close> block, the very properties that the
  validation of line 111 gave the document's record. And the bundle-size block of lines
  198 to 225 starts with its cache read when the package is set and
  \<^verbatim>\<open>ignoreBundlephobia\<close> is not \<^verbatim>\<open>true\<close>, and is skipped otherwise. For a document
  without a \<^verbatim>\<open>bundlephobia\<close> property, the block that line 111 gives is the default
  object of the block's schema, with its three properties \<^verbatim>\<open>undefined\<close>.
\<close>

theorem bundlephobia_ignored:
  assumes valid: "validateSync (yup cfg) (yamlSchema (Features cfg)) obj = Inr checked"
    and item: "validateSync (yup cfg) (libraryInfoSchema (Features cfg)) (with_id (basename_yml name) obj) = Inr item"
    and pkg: "truthy (sibling item ''npmPackage'')"
    and ign: "sibling item ''ignoreBundlephobia'' = JBool True"
  shows "(\<exists>evs. trace (snd (exec fetch (task cfg name (Inr obj)) s)) = trace s @ evs
            \<and> list_all (quiet (\<lambda>record. \<forall>k. sibling (sibling record ''bundlephobia'') k
                                              = sibling (sibling item ''bundlephobia'') k)) evs)
     \<and> (\<forall>it k. if truthy (sibling it ''npmPackage'')
                    \<and> strict_neq (sibling it ''ignoreBundlephobia'') (JBool True)
                 then \<exists>rest. bundlephobia it k
                        = CacheGet (bundlephobia_key (js_String (sibling it ''npmPackage''))) rest
                 else bundlephobia it k = k it)
     \<and> (sibling (with_id (basename_yml name) obj) ''bundlephobia'' = JUndefined
          \<longrightarrow> sibling item ''bundlephobia'' = bundlephobia_default)"
proof -
  have c: "sibling (with_id (basename_yml name) obj) ''bundlephobia'' = JUndefined
          \<longrightarrow> sibling item ''bundlephobia'' = bundlephobia_default"
  proof
    assume absent: "sibling (with_id (basename_yml name) obj) ''bundlephobia'' = JUndefined"
    from with_id_object obtain kvs where w: "with_id (basename_yml name) obj = JObj kvs" by blast
    with absent have "get_key kvs ''bundlephobia'' = JUndefined" by simp
    with item [unfolded w] show "sibling item ''bundlephobia'' = bundlephobia_default"
      by (rule bundlephobia_defaulted)
  qed
  from ign have "\<not> strict_neq (sibling item ''ignoreBundlephobia'') (JBool True)"
    by (simp add: strict_neq_def)
  from exec_only_events [OF quiet_task [OF valid item this]]
  have a: "\<exists>evs. trace (snd (exec fetch (task cfg name (Inr obj)) s)) = trace s @ evs
            \<and> list_all (quiet (\<lambda>record. \<forall>k. sibling (sibling record ''bundlephobia'') k
                                              = sibling (sibling item ''bundlephobia'') k)) evs" .
  have b: "\<forall>it k. if truthy (sibling it ''npmPackage'')
                    \<and> strict_neq (sibling it ''ignoreBundlephobia'') (JBool True)
                 then \<exists>rest. bundlephobia it k
                        = CacheGet (bundlephobia_key (js_String (sibling it ''npmPackage''))) rest
                 else bundlephobia it k = k it"
    by (auto simp add: bundlephobia_def Let_def)
  from a b c show ?thesis by blast
qed

lemma doc_ignore_valid:
  "validateSync (yup cfg_ex) (yamlSchema (Features cfg_ex)) doc_ignore = Inr doc_ignore"
  by code_simp

lemma doc_ignore_item:
  "validateSync (yup cfg_ex) (libraryInfoSchema (Features cfg_ex)) (with_id (basename_yml ''ag-grid.yml'') doc_ignore)
     = Inr item_ignore"
  by code_simp

text \<open>
  The block is not absent, though: validation gives a record without bundle sizes the
  default object of the block's schema, whose three properties are \<^verbatim>\<open>undefined\<close>.
\<close>

theorem bundlephobia_block_present:
  "sibling (hd (items (snd (exec fetch_500 (task cfg_ex ''ag-grid.yml'' (Inr doc_ignore)) warm_state))))
     ''bundlephobia'' = JObj [(''gzipSize'', JUndefined), (''rawSize'', JUndefined), (''url'', JUndefined)]"
  by code_simp

theorem bundlephobia_ignored_witness:
  "(\<exists>evs. trace (snd (exec fetch_500 (task cfg_ex ''ag-grid.yml'' (Inr doc_ignore)) warm_state)) = trace warm_state @ evs
            \<and> list_all (quiet (\<lambda>record. \<forall>k. sibling (sibling record ''bundlephobia'') k
                                              = sibling (sibling item_ignore ''bundlephobia'') k)) evs)
     \<and> (\<forall>it k. if truthy (sibling it ''npmPackage'')
                    \<and> strict_neq (sibling it ''ignoreBundlephobia'') (JBool True)
                 then \<exists>rest. bundlephobia it k
                        = CacheGet (bundlephobia_key (js_String (sibling it ''npmPackage''))) rest
                 else bundlephobia it k = k it)
     \<and> sibling item_ignore ''bundlephobia'' = bundlephobia_default"
proof -
  have pkg: "truthy (sibling item_ignore ''npmPackage'')" by code_simp
  have ign: "sibling item_ignore ''ignoreBundlephobia'' = JBool True" by code_simp
  have absent: "sibling (with_id (basename_yml ''ag-grid.yml'') doc_ignore) ''bundlephobia'' = JUndefined"
    by code_simp
  from bundlephobia_ignored [OF doc_ignore_valid doc_ignore_item pkg ign] absent
  show ?thesis by blast
qed

subsection \<open>Keys outside the enumerations\<close>

lemma feature_fields_keys: "map fst (feature_fields Fs) = Fs"
  by (simp add: feature_fields_def comp_def)

lemma feature_nodes: "set (nodes (feature_fields Fs)) \<subseteq> insert ''booleanOrString'' (set Fs)"
  by (auto simp add: nodes_def feature_fields_def booleanOrString_def)

lemma feature_cast_absent:
  "\<forall>key \<in> set Fs. get_key kvs key = JUndefined \<Longrightarrow>
     cast_fields L (feature_fields Fs) kvs built = Inr built"
  by (induction Fs) (simp_all add: feature_fields_def booleanOrString_def)

lemma feature_validate_absent:
  "\<forall>key \<in> set Fs. get_key kvs key = JUndefined \<Longrightarrow>
     validate_fields L (feature_fields Fs) (JObj kvs)"
  by (induction Fs) (simp_all add: feature_fields_def booleanOrString_def)

lemma features_unknown:
  assumes "k \<notin> set Fs" and "k \<noteq> ''booleanOrString''"
  shows "cast L (Object_schema (feature_fields Fs)) p (JObj [(k, JBool b)]) = Inr (JObj [(k, JBool b)])"
    and "validate L (Object_schema (feature_fields Fs)) p (JObj [(k, JBool b)])"
proof -
  let ?kvs = "[(k, JBool b)]"
  from assms have absent: "\<forall>key \<in> set Fs. get_key ?kvs key = JUndefined"
    by (auto simp add: get_key_def)
  from assms feature_nodes [of Fs] have kn: "k \<notin> set (nodes (feature_fields Fs))" by auto
  then have "filter (\<lambda>k'. k' = k) (filter (\<lambda>k'. k' \<notin> set Fs) (nodes (feature_fields Fs))) = []"
    by (auto simp add: filter_empty_conv)
  with kn feature_cast_absent [OF absent, of L "[]"]
  show "cast L (Object_schema (feature_fields Fs)) p (JObj ?kvs) = Inr (JObj ?kvs)"
    by (simp add: object_transform_object feature_fields_keys Let_def get_key_def)
  from feature_validate_absent [OF absent]
  show "validate L (Object_schema (feature_fields Fs)) p (JObj ?kvs)" by simp
qed

lemma features_empty:
  "cast L (Object_schema (feature_fields Fs)) p (JObj []) = Inr (JObj [])"
  "validate L (Object_schema (feature_fields Fs)) p (JObj [])"
proof -
  have absent: "\<forall>key \<in> set Fs. get_key [] key = JUndefined"
    by (simp add: get_key_def)
  from feature_cast_absent [OF absent, of L "[]"]
  show "cast L (Object_schema (feature_fields Fs)) p (JObj []) = Inr (JObj [])"
    by (simp add: object_transform_object feature_fields_keys Let_def get_key_def)
  from feature_validate_absent [OF absent]
  show "validate L (Object_schema (feature_fields Fs)) p (JObj [])" by simp
qed

lemma yamlSchema_fields: "yamlSchema Fs = Object_schema (yaml_fields Fs)"
  by (simp add: yamlSchema_def yaml_fields_def feature_fields_def)

lemma yaml_nodes: "nodes (yaml_fields Fs) = rev (map fst (yaml_fields Fs))"
  by (simp add: nodes_def yaml_fields_def frameworksSchema_def githubRepoSchema_def)

lemma yaml_keys:
  "map fst (yaml_fields Fs) = [''title'', ''description'', ''homeUrl'', ''demoUrl'', ''githubRepo'',
     ''npmPackage'', ''ignoreBundlephobia'', ''license'', ''revenueModel'', ''frameworks'', ''features'']"
  by (simp add: yaml_fields_def)

lemma yaml_key_set:
  "fst ` set (yaml_fields Fs) = set [''title'', ''description'', ''homeUrl'', ''demoUrl'', ''githubRepo'',
     ''npmPackage'', ''ignoreBundlephobia'', ''license'', ''revenueModel'', ''frameworks'', ''features'']"
  using yaml_keys [of Fs, THEN arg_cong, of set] by simp

lemma svelte_cast:
  "cast L frameworksSchema p (JObj [(''svelte'', JBool True)]) = Inr (JObj [(''svelte'', JBool True)])"
  by code_simp

lemma svelte_validate:
  "validate L frameworksSchema p (JObj [(''svelte'', JBool True)])"
  by code_simp

text \<open>
  For every set of feature keys and every key \<open>k\<close> outside it, the document with the
  unknown framework \<^verbatim>\<open>svelte\<close> and the unknown feature \<open>k\<close> passes the validation of
  line 107 unchanged: the set of line 89 is never consulted.
\<close>

lemma unknown_feature_accepted:
  assumes "k \<notin> set Fs" and "k \<noteq> ''booleanOrString''"
  shows "validateSync L (yamlSchema Fs) (doc_unknown k) = Inr (doc_unknown k)"
proof -
  note f = features_unknown [OF assms]
  let ?kvs = "[(''title'', JStr ''Grid''), (''description'', JStr ''A grid''),
     (''frameworks'', JObj [(''svelte'', JBool True)]),
     (''features'', JObj [(k, JBool True)])]"
  have cf: "cast_fields L (yaml_fields Fs) ?kvs [] = Inr (rev ?kvs)"
    by (simp add: yaml_fields_def get_key_def svelte_cast f githubRepoSchema_def del: cast.simps(6))
  have c: "cast L (Object_schema (yaml_fields Fs)) JUndefined (JObj ?kvs) = Inr (JObj ?kvs)"
    by (simp add: object_transform_object yaml_nodes yaml_keys yaml_key_set cf Let_def get_key_def
        strict_neq_def)
  have "validate_fields L (yaml_fields Fs) (JObj ?kvs)"
    by (simp add: yaml_fields_def get_key_def svelte_validate f githubRepoSchema_def del: validate.simps(6))
  then have v: "validate L (Object_schema (yaml_fields Fs)) JUndefined (JObj ?kvs)"
    by simp
  from c v show ?thesis by (simp add: validateSync_def yamlSchema_fields doc_unknown_def)
qed

lemma validates_iff:
  "validates L s v \<longleftrightarrow> (\<exists>x. cast L s JUndefined v = Inr x \<and> validate L s JUndefined x)"
  by (auto simp add: validates_def validateSync_def split: sum.splits)

lemma free_cast: "deps s = [] \<Longrightarrow> cast L s p v = cast L s p' v"
  by (cases s) simp_all

lemma free_validate: "deps s = [] \<Longrightarrow> validate L s p v = validate L s p' v"
  by (cases s) simp_all

lemma validate_fields_iff:
  "validate_fields L flds obj \<longleftrightarrow> (\<forall>(k, s) \<in> set flds. validate L s obj (sibling obj k))"
  by (induction flds) auto

lemma cast_object_ok:
  "(\<exists>r. cast L (Object_schema flds) p (JObj kvs) = Inr r) \<longleftrightarrow>
   (\<exists>b. cast_fields L flds kvs
           (map (\<lambda>k. (k, get_key kvs k))
              (filter (\<lambda>k. k \<in> set (map fst kvs)) (filter (\<lambda>k. k \<notin> set (map fst flds)) (nodes flds))))
         = Inr b)"
  by (auto simp add: object_transform_object Let_def split: sum.splits)

lemma cast_fields_free:
  assumes "\<forall>(k, s) \<in> set flds. deps s = []"
  shows "(\<exists>b. cast_fields L flds kvs built = Inr b) \<longleftrightarrow>
         (\<forall>(k, s) \<in> set flds. \<exists>x. cast L s JUndefined (get_key kvs k) = Inr x)"
  using assms
proof (induction flds)
  case Nil
  then show ?case by simp
next
  case (Cons a flds)
  obtain k s where a: "a = (k, s)" by (cases a)
  with Cons.prems have s: "deps s = []" and rest: "\<forall>(k, s) \<in> set flds. deps s = []" by simp_all
  from s have c: "\<And>b. cast L s (JObj b) (get_key kvs k) = cast L s JUndefined (get_key kvs k)"
    by (rule free_cast)
  from Cons.IH [OF rest] a c show ?case
    by (cases "cast_fields L flds kvs built"; cases "cast L s JUndefined (get_key kvs k)") auto
qed

lemma object_validates:
  assumes free: "\<forall>(k, s) \<in> set flds. deps s = []" and d: "distinct (map fst flds)"
  shows "validates L (Object_schema flds) (JObj kvs) \<longleftrightarrow>
         (\<forall>(k, s) \<in> set flds. validates L s (get_key kvs k))"
proof
  assume "validates L (Object_schema flds) (JObj kvs)"
  then obtain r where c: "cast L (Object_schema flds) JUndefined (JObj kvs) = Inr r"
    and v: "validate L (Object_schema flds) JUndefined r" by (auto simp add: validates_iff)
  from cast_object_is_object [OF c] obtain kvs' where r: "r = JObj kvs'" by (cases r) simp_all
  with v have vf: "validate_fields L flds r" by simp
  show "\<forall>(k, s) \<in> set flds. validates L s (get_key kvs k)"
  proof (clarify)
    fix k s assume m: "(k, s) \<in> set flds"
    with free have f: "deps s = []" by auto
    from cast_object_field [OF c d m] obtain b where
      "cast L s (JObj b) (get_key kvs k) = Inr (sibling r k)" by blast
    with free_cast [OF f, of L "JObj b" "get_key kvs k" JUndefined]
    have "cast L s JUndefined (get_key kvs k) = Inr (sibling r k)" by simp
    moreover from validate_fields_member [OF vf m] free_validate [OF f, of L r "sibling r k" JUndefined]
    have "validate L s JUndefined (sibling r k)" by simp
    ultimately show "validates L s (get_key kvs k)" by (auto simp add: validates_iff)
  qed
next
  assume all: "\<forall>(k, s) \<in> set flds. validates L s (get_key kvs k)"
  then have "\<forall>(k, s) \<in> set flds. \<exists>x. cast L s JUndefined (get_key kvs k) = Inr x"
    by (auto simp add: validates_iff)
  with cast_fields_free [OF free] cast_object_ok [of L flds JUndefined kvs]
  obtain r where c: "cast L (Object_schema flds) JUndefined (JObj kvs) = Inr r" by blast
  from cast_object_is_object [OF c] obtain kvs' where r: "r = JObj kvs'" by (cases r) simp_all
  have "validate L s r (sibling r k)" if m: "(k, s) \<in> set flds" for k s
  proof -
    from m free have f: "deps s = []" by auto
    from all m obtain x where x: "cast L s JUndefined (get_key kvs k) = Inr x"
      "validate L s JUndefined x" by (auto simp add: validates_iff)
    from cast_object_field [OF c d m] obtain b where
      "cast L s (JObj b) (get_key kvs k) = Inr (sibling r k)" by blast
    with free_cast [OF f, of L "JObj b" "get_key kvs k" JUndefined] x(1)
    have "sibling r k = x" by simp
    with x(2) free_validate [OF f, of L r x JUndefined] show ?thesis by simp
  qed
  then have "validate_fields L flds r" by (auto simp add: validate_fields_iff)
  with r have "validate L (Object_schema flds) JUndefined r" by simp
  with c show "validates L (Object_schema flds) (JObj kvs)" by (auto simp add: validates_iff)
qed

lemma cast_object_field_parent:
  assumes c: "cast L (Object_schema flds) p (JObj kvs) = Inr r"
    and d: "distinct (map fst flds)" and m: "(k, sch) \<in> set flds"
  shows "\<exists>b. (\<forall>x \<in> set (nodes flds). x \<notin> fst ` set flds \<longrightarrow> get_key b x = get_key kvs x)
           \<and> cast L sch (JObj b) (get_key kvs k) = Inr (sibling r k)"
proof -
  let ?keys0 = "filter (\<lambda>k. k \<in> set (map fst kvs)) (filter (\<lambda>k. k \<notin> set (map fst flds)) (nodes flds))"
  let ?built0 = "map (\<lambda>k. (k, get_key kvs k)) ?keys0"
  let ?copies = "map (\<lambda>k. (k, get_key kvs k)) (remdups (filter (\<lambda>k. k \<notin> set (nodes flds)) (map fst kvs)))"
  from cast_object_result [OF c] obtain built1 where
    b: "cast_fields L flds kvs ?built0 = Inr built1"
    and s: "\<forall>k \<in> set (nodes flds). sibling r k = get_key (built1 @ ?copies) k" by blast
  from m have kd: "k \<in> set (map fst flds)" by (auto simp add: rev_image_eqI)
  with nodes_declared have kn: "k \<in> set (nodes flds)" by blast
  from kd have k0: "k \<notin> fst ` set ?built0" by (auto simp add: image_iff)
  from kn have kc: "k \<notin> fst ` set ?copies" by (auto simp add: image_iff)
  from cast_fields_field_parent [OF b d m k0] obtain b' where
    p: "\<forall>x. x \<notin> fst ` set flds \<longrightarrow> get_key b' x = get_key ?built0 x"
    and v: "cast L sch (JObj b') (get_key kvs k) = Inr (get_key built1 k)" by blast
  have "get_key b' x = get_key kvs x" if x: "x \<in> set (nodes flds)" "x \<notin> fst ` set flds" for x
  proof -
    from p x have "get_key b' x = get_key ?built0 x" by simp
    also have "\<dots> = (if x \<in> set ?keys0 then get_key kvs x else JUndefined)"
      by (rule get_key_copies)
    also from x have "\<dots> = get_key kvs x"
      by (auto simp add: get_key_absent)
    finally show ?thesis .
  qed
  moreover from s kn have "sibling r k = get_key (built1 @ ?copies) k" by simp
  with kc have "sibling r k = get_key built1 k"
    by (simp add: get_key_append get_key_absent)
  ultimately show ?thesis using v by auto
qed

lemma scalar_cast_parent: "scalar s \<Longrightarrow> cast L s p v = cast L s p' v"
  by (cases s) simp_all

lemma scalar_validate_parent: "scalar s \<Longrightarrow> validate L s p v = validate L s p' v"
  by (cases s) simp_all

lemma scalar_cast_total: "scalar s \<Longrightarrow> \<exists>x. cast L s p v = Inr x"
  by (cases s) simp_all

lemma when_cast_parent:
  assumes "scalar t" and "scalar e" and "sibling p dkey = sibling p' dkey"
  shows "cast L (When dkey f t e) p v = cast L (When dkey f t e) p' v"
  using assms scalar_cast_parent [of t L p v p'] scalar_cast_parent [of e L p v p'] by simp

lemma when_validate_parent:
  assumes "scalar t" and "scalar e" and "sibling p dkey = sibling p' dkey"
  shows "validate L (When dkey f t e) p v = validate L (When dkey f t e) p' v"
  using assms scalar_validate_parent [of t L p v p'] scalar_validate_parent [of e L p v p'] by simp

lemma when_cast_total:
  assumes "scalar t" and "scalar e"
  shows "\<exists>x. cast L (When dkey f t e) p v = Inr x"
  using scalar_cast_total [OF assms(1), of L p v] scalar_cast_total [OF assms(2), of L p v] by simp

lemma when_fields_total:
  assumes "scalar t" and "scalar e"
  shows "\<exists>b. cast_fields L (map (\<lambda>k. (k, When dkey f t e)) keys) kvs built = Inr b"
proof (induction keys)
  case Nil
  then show ?case by simp
next
  case (Cons k keys)
  then obtain b where b: "cast_fields L (map (\<lambda>k. (k, When dkey f t e)) keys) kvs built = Inr b"
    by blast
  from when_cast_total [OF assms, of L dkey f "JObj b" "get_key kvs k"] obtain x where
    "cast L (When dkey f t e) (JObj b) (get_key kvs k) = Inr x" by blast
  with b show ?case by (simp del: cast.simps(5))
qed

lemma conditional_validates:
  assumes sc: "scalar t" "scalar e" and d: "distinct keys" and nd: "dkey \<notin> set keys"
  shows "validates L (Object_schema (map (\<lambda>k. (k, When dkey f t e)) keys)) (JObj kvs) \<longleftrightarrow>
         (\<forall>k \<in> set keys. entry_ok L (When dkey f t e) dkey (get_key kvs dkey) (get_key kvs k))"
proof -
  let ?w = "When dkey f t e"
  let ?flds = "map (\<lambda>k. (k, ?w)) keys"
  let ?p = "JObj [(dkey, get_key kvs dkey)]"
  have keys: "map fst ?flds = keys" by (simp add: comp_def)
  with d have dist: "distinct (map fst ?flds)" by simp
  from when_fields_total [OF sc] cast_object_ok [of L ?flds JUndefined kvs]
  obtain r where c: "cast L (Object_schema ?flds) JUndefined (JObj kvs) = Inr r" by blast
  from cast_object_is_object [OF c] obtain kvs' where r: "r = JObj kvs'" by (cases r) simp_all
  from nd keys have "dkey \<notin> set (map fst ?flds)" by simp
  from cast_object_other [OF c this] have flag: "sibling r dkey = get_key kvs dkey" .
  have sp: "sibling ?p dkey = get_key kvs dkey" by (simp add: get_key_def)
  have entry: "entry_ok L ?w dkey (get_key kvs dkey) (get_key kvs k) = validate L ?w r (sibling r k)"
    if k: "k \<in> set keys" for k
  proof -
    from k have m: "(k, ?w) \<in> set ?flds" by auto
    from k have dn: "dkey \<in> set (nodes ?flds)" by (auto simp add: nodes_def)
    from nd have df: "dkey \<notin> fst ` set ?flds" by (auto simp add: image_iff)
    from cast_object_field_parent [OF c dist m] obtain b where
      b: "\<forall>x \<in> set (nodes ?flds). x \<notin> fst ` set ?flds \<longrightarrow> get_key b x = get_key kvs x"
         "cast L ?w (JObj b) (get_key kvs k) = Inr (sibling r k)" by blast
    from b(1) dn df have "get_key b dkey = get_key kvs dkey" by blast
    with sp have "sibling (JObj b) dkey = sibling ?p dkey" by simp
    from when_cast_parent [OF sc this, of L f "get_key kvs k"] b(2)
    have "cast L ?w ?p (get_key kvs k) = Inr (sibling r k)" by simp
    moreover from flag sp have "sibling ?p dkey = sibling r dkey" by simp
    from when_validate_parent [OF sc this, of L f "sibling r k"]
    have "validate L ?w ?p (sibling r k) = validate L ?w r (sibling r k)" .
    ultimately show ?thesis by (simp add: entry_ok_def del: cast.simps(5) validate.simps(5))
  qed
  have "validates L (Object_schema ?flds) (JObj kvs) \<longleftrightarrow> validate_fields L ?flds r"
    using c r by (auto simp add: validates_iff)
  also have "\<dots> \<longleftrightarrow> (\<forall>k \<in> set keys. validate L ?w r (sibling r k))"
    by (auto simp add: validate_fields_iff simp del: validate.simps(5))
  also have "\<dots> \<longleftrightarrow> (\<forall>k \<in> set keys. entry_ok L ?w dkey (get_key kvs dkey) (get_key kvs k))"
    using entry by simp
  finally show ?thesis .
qed

lemma conditional_congruence:
  assumes sc: "scalar t" "scalar e" and d: "distinct keys" and nd: "dkey \<notin> set keys"
    and same: "\<forall>k \<in> set (dkey # keys). get_key kvs' k = get_key kvs k"
  shows "validates L (Object_schema (map (\<lambda>k. (k, When dkey f t e)) keys)) (JObj kvs')
       = validates L (Object_schema (map (\<lambda>k. (k, When dkey f t e)) keys)) (JObj kvs)"
  using same by (simp add: conditional_validates [OF sc d nd])

lemma frameworksSchema_conditional:
  "frameworksSchema = Object_schema
     (map (\<lambda>k. (k, When ''booleanOrUrl'' is_string (String_schema [Url]) Boolean_schema)) framework_names)"
  by (simp add: frameworksSchema_def framework_names_def booleanOrUrl_def)

lemma features_conditional:
  "Object_schema (feature_fields Fs) = Object_schema
     (map (\<lambda>k. (k, When ''booleanOrString'' is_string (String_schema []) Boolean_schema)) Fs)"
  by (simp add: feature_fields_def booleanOrString_def)

lemma yaml_fields_free:
  "\<forall>(k, s) \<in> set (yaml_fields Fs). deps s = []" "distinct (map fst (yaml_fields Fs))"
  by (simp_all add: yaml_fields_def frameworksSchema_def githubRepoSchema_def)

lemma yaml_field_cases:
  assumes "(k, s) \<in> set (yaml_fields Fs)"
  shows "(k = ''frameworks'' \<and> s = frameworksSchema)
       \<or> (k = ''features'' \<and> s = Object_schema (feature_fields Fs))
       \<or> (k \<noteq> ''frameworks'' \<and> k \<noteq> ''features'')"
  using assms by (auto simp add: yaml_fields_def)

text \<open>
  C1, as the code has it. A key of \<^verbatim>\<open>frameworks\<close> or \<^verbatim>\<open>features\<close> outside the
  enumerations has no part in validation, unless it is the key that the condition of
  the entries reads (\<^verbatim>\<open>booleanOrUrl\<close> in \<^verbatim>\<open>frameworks\<close>, \<^verbatim>\<open>booleanOrString\<close> in
  \<^verbatim>\<open>features\<close>): two documents whose \<^verbatim>\<open>frameworks\<close> and \<^verbatim>\<open>features\<close> are mappings,
  and that agree on every other property, on the six framework keys, on the feature keys
  and on the two keys the conditions read, both pass the validation of line 107 or both
  fail it. So a document is never rejected for a key outside the enumerations. The keys
  of \<^verbatim>\<open>Features\<close> are distinct and \<^verbatim>\<open>booleanOrString\<close> is none of them.
\<close>

theorem unknown_keys_ignored:
  assumes fw: "get_key kvs ''frameworks'' = JObj fw" "get_key kvs' ''frameworks'' = JObj fw'"
    and ft: "get_key kvs ''features'' = JObj ft" "get_key kvs' ''features'' = JObj ft'"
    and rest: "\<forall>key. key \<noteq> ''frameworks'' \<and> key \<noteq> ''features'' \<longrightarrow> get_key kvs' key = get_key kvs key"
    and same_fw: "\<forall>key \<in> set (''booleanOrUrl'' # framework_names). get_key fw' key = get_key fw key"
    and same_ft: "\<forall>key \<in> set (''booleanOrString'' # Fs). get_key ft' key = get_key ft key"
    and Fs: "distinct Fs" "''booleanOrString'' \<notin> set Fs"
  shows "validates L (yamlSchema Fs) (JObj kvs') = validates L (yamlSchema Fs) (JObj kvs)"
proof -
  have names: "distinct framework_names" "''booleanOrUrl'' \<notin> set framework_names"
    by (simp_all add: framework_names_def)
  have a: "validates L frameworksSchema (JObj fw') = validates L frameworksSchema (JObj fw)"
    unfolding frameworksSchema_conditional
    using _ _ names same_fw by (rule conditional_congruence) simp_all
  have b: "validates L (Object_schema (feature_fields Fs)) (JObj ft')
         = validates L (Object_schema (feature_fields Fs)) (JObj ft)"
    unfolding features_conditional
    using _ _ Fs same_ft by (rule conditional_congruence) simp_all
  have field: "validates L s (get_key kvs' k) = validates L s (get_key kvs k)"
    if m: "(k, s) \<in> set (yaml_fields Fs)" for k s
  proof -
    from yaml_field_cases [OF m] consider
        (frameworks) "k = ''frameworks''" "s = frameworksSchema"
      | (features) "k = ''features''" "s = Object_schema (feature_fields Fs)"
      | (other) "k \<noteq> ''frameworks''" "k \<noteq> ''features''" by blast
    then show ?thesis
    proof cases
      case frameworks
      with a fw show ?thesis by simp
    next
      case features
      with b ft show ?thesis by simp
    next
      case other
      with rest show ?thesis by simp
    qed
  qed
  have "(\<forall>(k, s) \<in> set (yaml_fields Fs). validates L s (get_key kvs' k))
      = (\<forall>(k, s) \<in> set (yaml_fields Fs). validates L s (get_key kvs k))"
  proof (intro iffI ballI; clarify)
    fix k s assume all: "\<forall>(k, s) \<in> set (yaml_fields Fs). validates L s (get_key kvs' k)"
      and m: "(k, s) \<in> set (yaml_fields Fs)"
    from all m have "validates L s (get_key kvs' k)" by blast
    with field [OF m] show "validates L s (get_key kvs k)" by simp
  next
    fix k s assume all: "\<forall>(k, s) \<in> set (yaml_fields Fs). validates L s (get_key kvs k)"
      and m: "(k, s) \<in> set (yaml_fields Fs)"
    from all m have "validates L s (get_key kvs k)" by blast
    with field [OF m] show "validates L s (get_key kvs' k)" by simp
  qed
  then show ?thesis
    unfolding yamlSchema_fields object_validates [OF yaml_fields_free] .
qed

lemma doc_known_validates: "validates (yup cfg_ex) (yamlSchema (Features cfg_ex)) (JObj doc_known)"
  by code_simp

theorem unknown_keys_ignored_witness:
  "validates (yup cfg_ex) (yamlSchema (Features cfg_ex)) (JObj doc_extra)
   \<and> validates (yup cfg_ex) (yamlSchema (Features cfg_ex)) (JObj doc_known)"
proof -
  have "validates (yup cfg_ex) (yamlSchema [''sorting'', ''filtering'']) (JObj doc_extra)
      = validates (yup cfg_ex) (yamlSchema [''sorting'', ''filtering'']) (JObj doc_known)"
    by (rule unknown_keys_ignored
        [where fw = "[(''react'', JBool True)]"
           and fw' = "[(''react'', JBool True), (''svelte'', JBool True)]"
           and ft = "[(''sorting'', JBool True)]"
           and ft' = "[(''sorting'', JBool True), (''tree-shaking'', JBool True)]"])
      (simp_all add: doc_known_def doc_extra_def get_key_def framework_names_def)
  moreover have "Features cfg_ex = [''sorting'', ''filtering'']" by (simp add: cfg_ex_def)
  ultimately show ?thesis using doc_known_validates by simp
qed

text \<open>The claim as stated fails on the document with the framework \<^verbatim>\<open>svelte\<close>.\<close>

theorem unknown_framework_validates:
  "''svelte'' \<notin> set [''vanilla'', ''react'', ''vue'', ''angular'', ''jquery'', ''ember'']
   \<and> validateSync (yup cfg_ex) (yamlSchema (Features cfg_ex)) doc_svelte = Inr doc_svelte"
  by code_simp

subsection \<open>A framework entry that is a URL\<close>

lemma react_url_cast:
  "cast L frameworksSchema p (JObj [(''react'', JStr ''https://example.com/docs'')])
     = Inr (JObj [(''react'', JStr ''https://example.com/docs'')])"
  by code_simp

lemma react_url_validate:
  "\<not> validate L frameworksSchema p (JObj [(''react'', JStr ''https://example.com/docs'')])"
  by code_simp

text \<open>
  What \<open>frameworksSchema\<close> does to an entry: the condition of line 14 reads the sibling
  property \<^verbatim>\<open>booleanOrUrl\<close>, which a document does not have, so every entry is held to
  the boolean schema, whatever its own type; an entry is held to the string schema only
  in an object that has a string under the key \<^verbatim>\<open>booleanOrUrl\<close>.
\<close>

lemma framework_entry_rule:
  "validateSync L frameworksSchema (JObj [(''react'', JBool b)]) = Inr (JObj [(''react'', JBool b)])"
  "validateSync L frameworksSchema (JObj []) = Inr (JObj [])"
  "validateSync L frameworksSchema (JObj [(''react'', JNum 42)]) = Inl ValidationError"
  "validateSync L frameworksSchema (JObj [(''react'', JStr ''https://example.com/docs'')]) = Inl ValidationError"
  "validateSync L frameworksSchema (JObj [(''react'', JStr ''true'')]) = Inr (JObj [(''react'', JBool True)])"
  "validateSync L frameworksSchema (JObj [(''react'', JStr [])]) = Inl ValidationError"
  "validateSync L frameworksSchema (JObj [(''booleanOrUrl'', JStr ''x''), (''react'', JStr [])])
     = Inr (JObj [(''booleanOrUrl'', JStr ''x''), (''react'', JStr [])])"
  by code_simp+

text \<open>
  C2, on the code. With any URL test and any set of feature keys, the document whose
  \<^verbatim>\<open>frameworks.react\<close> is \<^verbatim>\<open>"https://example.com/docs"\<close> fails the validation of line
  107.
\<close>

theorem framework_url_rejected:
  "validateSync L (yamlSchema Fs) doc_url = Inl ValidationError"
proof -
  let ?kvs = "[(''title'', JStr ''Grid''), (''description'', JStr ''A grid''),
     (''frameworks'', JObj [(''react'', JStr ''https://example.com/docs'')]),
     (''features'', JObj [])]"
  have cf: "cast_fields L (yaml_fields Fs) ?kvs [] = Inr (rev ?kvs)"
    by (simp add: yaml_fields_def get_key_def react_url_cast features_empty githubRepoSchema_def
        del: cast.simps(6))
  have c: "cast L (Object_schema (yaml_fields Fs)) JUndefined (JObj ?kvs) = Inr (JObj ?kvs)"
    by (simp add: object_transform_object yaml_nodes yaml_keys yaml_key_set cf Let_def get_key_def
        strict_neq_def)
  have "\<not> validate_fields L (yaml_fields Fs) (JObj ?kvs)"
    by (simp add: yaml_fields_def get_key_def react_url_validate features_empty githubRepoSchema_def
        del: validate.simps(6))
  then have v: "\<not> validate L (Object_schema (yaml_fields Fs)) JUndefined (JObj ?kvs)"
    by simp
  from c v show ?thesis by (simp add: validateSync_def yamlSchema_fields doc_url_def)
qed

subsection \<open>A record served from the cache, after validation\<close>

lemma cached_record_object: "is_object item \<Longrightarrow> is_object (cached_record c item)"
  by (simp add: cached_record_def Let_def is_object_set_prop)

lemma enrichment_blocks:
  "(blk, Object_schema bflds) \<in> set [(''github'', Object_schema github_fields),
       (''npm'', Object_schema npm_fields), (''bundlephobia'', Object_schema bundlephobia_fields)]
   \<Longrightarrow> (blk, Object_schema bflds) \<in> set (library_fields Fs)
       \<and> (\<forall>(k, s) \<in> set bflds. scalar s) \<and> distinct (map fst bflds)"
  by (auto simp add: library_fields_def github_fields_def npm_fields_def bundlephobia_fields_def)

lemma warm_ex: "warm cache_ex item_ex" by code_simp

lemma reads_ex: "cache_reads item_ex = [Get ''gh-ag-grid/ag-grid-info'', Get ''gh-ag-grid/ag-grid-contributors'',
   Get ''npm-ag-grid-community'', Get ''bundlephobia-ag-grid-community'']" by code_simp

lemma cached_ex: "validateSync (yup cfg_ex) (libraryInfoSchema (Features cfg_ex)) (cached_record cache_ex item_ex) = Inr record_ex"
  by code_simp

lemma npm_cached_valid:
  "validate (yup cfg_ex) (Object_schema npm_fields) JUndefined (sibling (cached_record cache_ex item_ex) ''npm'')"
  by code_simp

text \<open>
  C5, as the code has it. A source document that validates to a record, and a cache
  that answers every key the record asks for: whatever the fetcher would answer, the
  callback makes no request and writes nothing. It reads the cache, hands
  \<open>cached_record\<close> to the validation of line 227, and pushes what that returns, or throws
  what that throws. In the record pushed, each enrichment block whose cached values have
  the types of the block's schema has, property for property, the values of
  \<open>cached_record\<close>.
\<close>

theorem cached_record_no_fetch:
  assumes valid: "validateSync (yup cfg) (yamlSchema (Features cfg)) obj = Inr checked"
    and item: "validateSync (yup cfg) (libraryInfoSchema (Features cfg)) (with_id (basename_yml name) obj) = Inr item"
    and warm: "warm (cache s) item"
  shows "exec fetch (task cfg name (Inr obj)) s =
     (case validateSync (yup cfg) (libraryInfoSchema (Features cfg)) (cached_record (cache s) item) of
        Inl e \<Rightarrow> (Some e, s\<lparr>trace := trace s @ cache_reads item\<rparr>)
      | Inr record \<Rightarrow>
          (None, s\<lparr>items := items s @ [record],
                   trace := trace s @ cache_reads item @ [Pushed record]\<rparr>))
    \<and> (\<forall>record blk bflds k.
          validateSync (yup cfg) (libraryInfoSchema (Features cfg)) (cached_record (cache s) item) = Inr record
          \<and> (blk, Object_schema bflds) \<in> set [(''github'', Object_schema github_fields),
                (''npm'', Object_schema npm_fields), (''bundlephobia'', Object_schema bundlephobia_fields)]
          \<and> validate (yup cfg) (Object_schema bflds) JUndefined (sibling (cached_record (cache s) item) blk)
          \<longrightarrow> sibling (sibling record blk) k = sibling (sibling (cached_record (cache s) item) blk) k)"
proof -
  have a: "exec fetch (task cfg name (Inr obj)) s =
     (case validateSync (yup cfg) (libraryInfoSchema (Features cfg)) (cached_record (cache s) item) of
        Inl e \<Rightarrow> (Some e, s\<lparr>trace := trace s @ cache_reads item\<rparr>)
      | Inr record \<Rightarrow>
          (None, s\<lparr>items := items s @ [record],
                   trace := trace s @ cache_reads item @ [Pushed record]\<rparr>))"
    using task_cached [OF assms]
    by (auto split: sum.splits intro: run_sync_exec)
  from with_id_object obtain kvs where w: "with_id (basename_yml name) obj = JObj kvs" by blast
  from validated_block [OF bundlephobia_block item [unfolded w]] have "is_object item" by simp
  then have o: "is_object (cached_record (cache s) item)" by (rule cached_record_object)
  have b: "sibling (sibling validated blk) k = sibling (sibling (cached_record (cache s) item) blk) k"
    if r: "validateSync (yup cfg) (libraryInfoSchema (Features cfg)) (cached_record (cache s) item) = Inr validated"
      and m: "(blk, Object_schema bflds) \<in> set [(''github'', Object_schema github_fields),
                (''npm'', Object_schema npm_fields), (''bundlephobia'', Object_schema bundlephobia_fields)]"
      and v: "validate (yup cfg) (Object_schema bflds) JUndefined (sibling (cached_record (cache s) item) blk)"
    for validated blk bflds k
  proof -
    from enrichment_blocks [OF m, of "Features cfg"]
    have m': "(blk, Object_schema bflds) \<in> set (library_fields (Features cfg))"
      and sc: "\<forall>(k, s) \<in> set bflds. scalar s" and d: "distinct (map fst bflds)" by simp_all
    from block_kept [OF m' sc d v o r] show ?thesis .
  qed
  from a b show ?thesis by blast
qed

theorem cached_record_no_fetch_witness:
  "exec fetch_500 (task cfg_ex ''ag-grid.yml'' (Inr doc_ex)) \<lparr>cache = cache_ex, items = [], trace = []\<rparr> =
     (None, \<lparr>cache = cache_ex, items = [record_ex],
             trace = [Get ''gh-ag-grid/ag-grid-info'', Get ''gh-ag-grid/ag-grid-contributors'',
                      Get ''npm-ag-grid-community'', Get ''bundlephobia-ag-grid-community'',
                      Pushed record_ex]\<rparr>)
   \<and> sibling (sibling record_ex ''npm'') ''downloads''
       = sibling (sibling (cached_record cache_ex item_ex) ''npm'') ''downloads''"
proof -
  note main = cached_record_no_fetch [OF doc_ex_valid doc_ex_item,
      of "\<lparr>cache = cache_ex, items = [], trace = []\<rparr>" fetch_500]
  from main have a: "exec fetch_500 (task cfg_ex ''ag-grid.yml'' (Inr doc_ex))
       \<lparr>cache = cache_ex, items = [], trace = []\<rparr> =
     (None, \<lparr>cache = cache_ex, items = [record_ex],
             trace = [Get ''gh-ag-grid/ag-grid-info'', Get ''gh-ag-grid/ag-grid-contributors'',
                      Get ''npm-ag-grid-community'', Get ''bundlephobia-ag-grid-community'',
                      Pushed record_ex]\<rparr>)"
    by (simp add: warm_ex reads_ex cached_ex)
  from main cached_ex npm_cached_valid
  have b: "sibling (sibling record_ex ''npm'') ''downloads''
       = sibling (sibling (cached_record cache_ex item_ex) ''npm'') ''downloads''"
    by (simp add: warm_ex)
  from a b show ?thesis by simp
qed

text \<open>
  A block whose cached values do not have the types of its schema is not pushed as
  cached. With every entry in the cache and the download count cached as the string
  \<^verbatim>\<open>"12"\<close>, the callback makes its four reads and no request, and the record it pushes
  holds the number 12.
\<close>

theorem cached_string_recast:
  "truthy (cache_get cache_str ''gh-ag-grid/ag-grid-info'')
   \<and> truthy (cache_get cache_str ''gh-ag-grid/ag-grid-contributors'')
   \<and> truthy (cache_get cache_str ''npm-ag-grid-community'')
   \<and> truthy (cache_get cache_str ''bundlephobia-ag-grid-community'')
   \<and> sibling (cache_get cache_str ''npm-ag-grid-community'') ''downloads'' = JStr ''12''
   \<and> fst (exec fetch_500 (task cfg_num ''ag-grid.yml'' (Inr doc_ex))
            \<lparr>cache = cache_str, items = [], trace = []\<rparr>) = None
   \<and> take 4 (trace (snd (exec fetch_500 (task cfg_num ''ag-grid.yml'' (Inr doc_ex))
            \<lparr>cache = cache_str, items = [], trace = []\<rparr>)))
       = [Get ''gh-ag-grid/ag-grid-info'', Get ''gh-ag-grid/ag-grid-contributors'',
          Get ''npm-ag-grid-community'', Get ''bundlephobia-ag-grid-community'']
   \<and> length (trace (snd (exec fetch_500 (task cfg_num ''ag-grid.yml'' (Inr doc_ex))
            \<lparr>cache = cache_str, items = [], trace = []\<rparr>))) = 5
   \<and> sibling (sibling (hd (items (snd (exec fetch_500 (task cfg_num ''ag-grid.yml'' (Inr doc_ex))
            \<lparr>cache = cache_str, items = [], trace = []\<rparr>)))) ''npm'') ''downloads'' = JNum 12"
  by code_simp

end
